theory Spec2Isabelle
  imports Main
begin

section \<open>Errors and settled promises\<close>

text \<open>
  The values the pipeline throws. \<open>errors.ts\<close> declares \<open>TrackingError\<close>,
  \<open>ProviderError\<close> (a subclass of \<open>TrackingError\<close>) and \<open>AuthenticationError\<close>
  (a subclass of \<open>ProviderError\<close>). A \<open>ProviderError\<close> carries its message, the
  \<open>courier\<close> and \<open>trackingNumber\<close> it was built with, \<open>raw\<close> (\<open>None\<close> when it is
  \<open>undefined\<close>) and its \<open>cause\<close>; the constructor of \<open>AuthenticationError\<close> takes no
  \<open>raw\<close>. An \<open>AxiosError\<close> has its message and, when a response was received, the
  response's status and data (the data is \<open>None\<close> when it is absent or falsy).
  \<open>PlainError\<close> is a plain \<open>Error\<close>. \<open>ResponseError\<close> is an \<open>Error\<close> that is not an
  instance of \<open>AxiosError\<close> and has a \<open>response\<close> with a status and data all the same:
  the code reads \<open>response\<close> from whatever it catches, and \<open>instanceof\<close> tells the two
  apart. \<open>Undefined\<close> is the value \<open>undefined\<close>, which \<open>throw lastError\<close> throws when no
  attempt was made.
\<close>

datatype error =
    AxiosError string "(int \<times> string option) option"
  | PlainError string
  | ResponseError string "int \<times> string option"
  | TrackingError string
  | ProviderError string string string "string option" "error option"
  | AuthenticationError string string string "error option"
  | Undefined

text \<open>\<open>err.response?.status\<close>, for a thrown value that is an object.\<close>

fun response_status :: "error \<Rightarrow> int option" where
  "response_status (AxiosError m (Some (st, d))) = Some st"
| "response_status (ResponseError m (st, d)) = Some st"
| "response_status e = None"

text \<open>
  \<open>err.response?.data\<close>, for a thrown value that is an object: the data when it is
  there and truthy.
\<close>

fun response_data :: "error \<Rightarrow> string option" where
  "response_data (AxiosError m (Some (st, d))) = d"
| "response_data (ResponseError m (st, d)) = d"
| "response_data e = None"

text \<open>
  \<open>err.message\<close>: every error object has one. There is none to read from \<open>undefined\<close>.
\<close>

fun message :: "error \<Rightarrow> string option" where
  "message (AxiosError m response) = Some m"
| "message (PlainError m) = Some m"
| "message (ResponseError m response) = Some m"
| "message (TrackingError m) = Some m"
| "message (ProviderError m c n r cause) = Some m"
| "message (AuthenticationError m c n cause) = Some m"
| "message Undefined = None"

text \<open>
  Reading a property from \<open>undefined\<close> (\<open>err.response\<close>, \<open>err.message\<close>) throws this
  \<open>TypeError\<close>, an \<open>Error\<close> of no class of the package.
\<close>

abbreviation TypeError :: error where
  "TypeError \<equiv> PlainError ''Cannot read properties of undefined''"

text \<open>A settled promise: \<open>Inl\<close> is a rejection, \<open>Inr\<close> a fulfilment.\<close>

type_synonym 'a settled = "error + 'a"

text \<open>
  What the code reads from and does to its environment: \<open>Date.now()\<close>, the
  \<open>setTimeout\<close> sleep of the retry loop and \<open>console.log\<close>, over any state \<open>'s\<close>
  of the world.
\<close>

record 's runtime =
  Date_now :: "'s \<Rightarrow> int"
  sleep :: "int \<Rightarrow> 's \<Rightarrow> 's"
  console_log :: "string \<Rightarrow> 's \<Rightarrow> 's"

text \<open>
  \<open>type NextFunction = () => Promise<TrackingResult>\<close>: the continuation of a middleware,
  a computation over the world that settles.
\<close>

type_synonym ('s, 'a) NextFunction = "'s \<Rightarrow> 'a settled \<times> 's"

text \<open>
  The request context, with the two fields the middlewares read. (Its \<open>provider\<close> and
  \<open>options\<close> are carried along and read by none of them.)
\<close>

record MiddlewareContext =
  trackingNumber :: string
  courierCode :: string

text \<open>
  Instrumentation for statements that count invocations: the same continuation over a
  world paired with a counter that goes up by one at every invocation.
\<close>

definition counting :: "('s, 'a) NextFunction \<Rightarrow> (nat \<times> 's, 'a) NextFunction" where
  "counting next = (\<lambda>(n, s). case next s of (r, s') \<Rightarrow> (r, (Suc n, s')))"

definition counted :: "'s runtime \<Rightarrow> (nat \<times> 's) runtime" where
  "counted rt = \<lparr>Date_now = (\<lambda>(n, s). Date_now rt s),
                 sleep = (\<lambda>d (n, s). (n, sleep rt d s)),
                 console_log = (\<lambda>m (n, s). (n, console_log rt m s))\<rparr>"

text \<open>
  A second instrumentation, for statements about the order of what happens: the world is
  paired with a trace that records every invocation of the continuation, with the error
  it rejected with (\<open>None\<close> when it fulfilled), and every sleep with its delay.
\<close>

datatype event = Invoked "error option" | Slept int


definition traced :: "'s runtime \<Rightarrow> (event list \<times> 's) runtime" where
  "traced rt = \<lparr>Date_now = (\<lambda>(tr, s). Date_now rt s),
                 sleep = (\<lambda>d (tr, s). (tr @ [Slept d], sleep rt d s)),
                 console_log = (\<lambda>m (tr, s). (tr, console_log rt m s))\<rparr>"

section \<open>Circuit breaker (middleware/circuit-breaker.ts)\<close>

datatype CircuitState = CLOSED | OPEN | HALF_OPEN

record CircuitInfo =
  state :: CircuitState
  failures :: int
  lastFailureTime :: int

record CircuitBreakerOptions =
  opt_failureThreshold :: "int option"
  opt_resetTimeoutMs :: "int option"

record CircuitBreakerMiddleware =
  circuits :: "string \<rightharpoonup> CircuitInfo"
  failureThreshold :: int
  resetTimeoutMs :: int

text \<open>The constructor: \<open>options?.failureThreshold ?? 5\<close>, \<open>options?.resetTimeoutMs ?? 30_000\<close>.\<close>

definition new_CircuitBreakerMiddleware :: "CircuitBreakerOptions option \<Rightarrow> CircuitBreakerMiddleware" where
  "new_CircuitBreakerMiddleware options =
     \<lparr>circuits = Map.empty,
      failureThreshold = (case Option.bind options opt_failureThreshold of Some n \<Rightarrow> n | None \<Rightarrow> 5),
      resetTimeoutMs = (case Option.bind options opt_resetTimeoutMs of Some n \<Rightarrow> n | None \<Rightarrow> 30000)\<rparr>"

definition initial_circuit :: CircuitInfo where
  "initial_circuit = \<lparr>state = CLOSED, failures = 0, lastFailureTime = 0\<rparr>"

text \<open>\<open>getCircuit\<close>: the record of the key, created on first use and stored.\<close>

definition getCircuit :: "CircuitBreakerMiddleware \<Rightarrow> string \<Rightarrow> CircuitInfo \<times> CircuitBreakerMiddleware" where
  "getCircuit this code =
     (case circuits this code of
        Some circuit \<Rightarrow> (circuit, this)
      | None \<Rightarrow> (initial_circuit, this\<lparr>circuits := (circuits this)(code \<mapsto> initial_circuit)\<rparr>))"

definition breaker_open_error :: "string \<Rightarrow> error" where
  "breaker_open_error code =
     TrackingError (''Circuit breaker is open for provider \"'' @ code @ ''\". Requests are blocked.'')"

text \<open>
  The three synchronous blocks of \<open>execute\<close>, each a function of the record it mutates:
  the gate before \<open>next()\<close> (lines 46-52), the success branch (57-58) and the failure
  branch (61-65). \<open>now\<close> is the value \<open>Date.now()\<close> returns in the block.
\<close>

definition gate :: "CircuitBreakerMiddleware \<Rightarrow> string \<Rightarrow> int \<Rightarrow> CircuitInfo \<Rightarrow> error + CircuitInfo" where
  "gate this code now circuit =
     (if state circuit = OPEN then
        (if now - lastFailureTime circuit \<ge> resetTimeoutMs this
         then Inr (circuit\<lparr>state := HALF_OPEN\<rparr>)
         else Inl (breaker_open_error code))
      else Inr circuit)"

definition onSuccess :: "CircuitInfo \<Rightarrow> CircuitInfo" where
  "onSuccess circuit = circuit\<lparr>state := CLOSED, failures := 0\<rparr>"

definition onFailure :: "CircuitBreakerMiddleware \<Rightarrow> int \<Rightarrow> CircuitInfo \<Rightarrow> CircuitInfo" where
  "onFailure this now circuit =
     (let c = circuit\<lparr>failures := failures circuit + 1, lastFailureTime := now\<rparr>
      in if failures c \<ge> failureThreshold this then c\<lparr>state := OPEN\<rparr> else c)"

text \<open>
  \<open>CircuitBreakerMiddleware.execute\<close>. The record is an object held by the map, so every
  mutation of it is written back under its key.
\<close>

definition store :: "CircuitBreakerMiddleware \<Rightarrow> string \<Rightarrow> CircuitInfo \<Rightarrow> CircuitBreakerMiddleware" where
  "store this code circuit = this\<lparr>circuits := (circuits this)(code \<mapsto> circuit)\<rparr>"

definition CircuitBreaker_execute ::
  "'s runtime \<Rightarrow> MiddlewareContext \<Rightarrow> ('s, 'a) NextFunction \<Rightarrow>
     CircuitBreakerMiddleware \<times> 's \<Rightarrow> 'a settled \<times> CircuitBreakerMiddleware \<times> 's" where
  "CircuitBreaker_execute rt ctx next = (\<lambda>(this0, s).
     case getCircuit this0 (courierCode ctx) of (circuit0, this) \<Rightarrow>
     (case gate this (courierCode ctx) (Date_now rt s) circuit0 of
        Inl err \<Rightarrow> (Inl err, this, s)
      | Inr circuit \<Rightarrow>
          (case next s of
             (Inr result, s') \<Rightarrow> (Inr result, store this (courierCode ctx) (onSuccess circuit), s')
           | (Inl err, s') \<Rightarrow>
               (Inl err, store this (courierCode ctx) (onFailure this (Date_now rt s') circuit), s'))))"

text \<open>
  The records an instance can hold: the initial record, and whatever the three blocks
  make of a reachable record, in any order (so also when calls interleave).
\<close>

inductive_set reachable :: "CircuitBreakerMiddleware \<Rightarrow> CircuitInfo set"
  for this :: CircuitBreakerMiddleware where
  r_init: "initial_circuit \<in> reachable this"
| r_gate: "c \<in> reachable this \<Longrightarrow> gate this code now c = Inr c' \<Longrightarrow> c' \<in> reachable this"
| r_success: "c \<in> reachable this \<Longrightarrow> onSuccess c \<in> reachable this"
| r_failure: "c \<in> reachable this \<Longrightarrow> onFailure this now c \<in> reachable this"

text \<open>
  One whole call on a record, as \<open>execute\<close> runs it when nothing interleaves: the gate at
  time \<open>t1\<close>, then, unless the gate threw, the branch of the downstream outcome (\<open>ok\<close>
  when \<open>next()\<close> fulfilled; the failure branch reads the clock again, \<open>t2\<close>).
\<close>

fun call_step :: "CircuitBreakerMiddleware \<Rightarrow> string \<Rightarrow> CircuitInfo \<Rightarrow> int \<times> bool \<times> int \<Rightarrow> CircuitInfo" where
  "call_step this code c (t1, ok, t2) =
     (case gate this code t1 c of
        Inl err \<Rightarrow> c
      | Inr c1 \<Rightarrow> if ok then onSuccess c1 else onFailure this t2 c1)"

definition after_calls :: "CircuitBreakerMiddleware \<Rightarrow> string \<Rightarrow> (int \<times> bool \<times> int) list \<Rightarrow> CircuitInfo" where
  "after_calls this code h = foldl (call_step this code) initial_circuit h"

text \<open>The spec's counter: how many calls at the end of a history failed, back to the last success.\<close>

definition consecutive_failures :: "(int \<times> bool \<times> int) list \<Rightarrow> int" where
  "consecutive_failures h = int (length (takeWhile (\<lambda>(t1, ok, t2). \<not> ok) (rev h)))"

text \<open>
  A concrete setting, as in the repository's tests: the world is a clock, the key is
  \<open>test\<close>, the breaker has \<open>failureThreshold = 2\<close> and \<open>resetTimeoutMs = 60000\<close>, and
  the downstream call fails after one millisecond.
\<close>

definition clock_runtime :: "int runtime" where
  "clock_runtime = \<lparr>Date_now = (\<lambda>t. t), sleep = (\<lambda>d t. t + d), console_log = (\<lambda>m t. t)\<rparr>"

definition test_ctx :: MiddlewareContext where
  "test_ctx = \<lparr>trackingNumber = ''123'', courierCode = ''test''\<rparr>"

definition breaker_with :: "CircuitInfo \<Rightarrow> CircuitBreakerMiddleware" where
  "breaker_with c =
     (new_CircuitBreakerMiddleware (Some \<lparr>opt_failureThreshold = Some 2, opt_resetTimeoutMs = Some 60000\<rparr>))
       \<lparr>circuits := [''test'' \<mapsto> c]\<rparr>"

definition failing :: "(int, unit) NextFunction" where
  "failing = (\<lambda>t. (Inl (PlainError ''fail''), t + 1))"

text \<open>
  Calls that overlap. \<open>execute\<close> runs in two stretches, with the \<open>await\<close> of \<open>next()\<close>
  between them: on entry it takes the record of the key and passes the gate, or throws,
  and invokes \<open>next()\<close>; when the promise of \<open>next()\<close> has settled it runs the success
  branch or the failure branch, on the record as it is by then: the record is one object
  per key, the one the map holds, shared by every call on the key, and other calls may
  run their stretches between the two. (Only a call that awaits \<open>next()\<close> has a second
  stretch, and the map holds the record from the entry of the first call on.) A run of calls on one key is a list of such stretches, each with the
  call it belongs to and the value of \<open>Date.now()\<close> where the stretch reads it. The
  state of a run is the instance, the calls that await their \<open>next()\<close>, and the calls
  the gate has thrown at, with the error.
\<close>

datatype 'c breaker_event = Enters 'c int | NextFulfils 'c | NextRejects 'c int

record 'c BreakerCalls =
  bc_this :: CircuitBreakerMiddleware
  bc_awaiting :: "'c list"
  bc_thrown :: "('c \<times> error) list"

fun breaker_step :: "string \<Rightarrow> 'c BreakerCalls \<Rightarrow> 'c breaker_event \<Rightarrow> 'c BreakerCalls" where
  "breaker_step code run (Enters c now) =
     (case getCircuit (bc_this run) code of (circuit0, this) \<Rightarrow>
        (case gate this code now circuit0 of
           Inl err \<Rightarrow> run\<lparr>bc_this := this, bc_thrown := bc_thrown run @ [(c, err)]\<rparr>
         | Inr circuit \<Rightarrow> run\<lparr>bc_this := store this code circuit, bc_awaiting := bc_awaiting run @ [c]\<rparr>))"
| "breaker_step code run (NextFulfils c) =
     (case circuits (bc_this run) code of
        Some circuit \<Rightarrow>
          if c \<in> set (bc_awaiting run) then
            run\<lparr>bc_this := store (bc_this run) code (onSuccess circuit),
                bc_awaiting := removeAll c (bc_awaiting run)\<rparr>
          else run
      | None \<Rightarrow> run)"
| "breaker_step code run (NextRejects c now) =
     (case circuits (bc_this run) code of
        Some circuit \<Rightarrow>
          if c \<in> set (bc_awaiting run) then
            run\<lparr>bc_this := store (bc_this run) code (onFailure (bc_this run) now circuit),
                bc_awaiting := removeAll c (bc_awaiting run)\<rparr>
          else run
      | None \<Rightarrow> run)"

definition breaker_run :: "string \<Rightarrow> CircuitBreakerMiddleware \<Rightarrow> 'c breaker_event list \<Rightarrow> 'c BreakerCalls" where
  "breaker_run code this evs = foldl (breaker_step code) \<lparr>bc_this = this, bc_awaiting = [], bc_thrown = []\<rparr> evs"

text \<open>The record of the key \<open>test\<close> after a run on the breaker of the tests.\<close>

definition record_after :: "nat breaker_event list \<Rightarrow> CircuitInfo option" where
  "record_after evs = circuits (bc_this (breaker_run ''test'' (breaker_with initial_circuit) evs)) ''test''"

section \<open>Retry (middleware/retry.ts)\<close>

record RetryOptions =
  opt_maxAttempts :: "int option"
  opt_baseDelayMs :: "int option"

record RetryMiddleware =
  maxAttempts :: int
  baseDelayMs :: int

text \<open>The constructor: \<open>options?.maxAttempts ?? 3\<close>, \<open>options?.baseDelayMs ?? 1000\<close>.\<close>

definition new_RetryMiddleware :: "RetryOptions option \<Rightarrow> RetryMiddleware" where
  "new_RetryMiddleware options =
     \<lparr>maxAttempts = (case Option.bind options opt_maxAttempts of Some n \<Rightarrow> n | None \<Rightarrow> 3),
      baseDelayMs = (case Option.bind options opt_baseDelayMs of Some n \<Rightarrow> n | None \<Rightarrow> 1000)\<rparr>"

text \<open>
  \<open>isRetryable\<close>: only an \<open>AxiosError\<close> whose response status is 429 or at least 500.
  \<open>status != null\<close> is the presence of a response.
\<close>

fun isRetryable :: "error \<Rightarrow> bool" where
  "isRetryable (AxiosError m response) =
     (case response of
        None \<Rightarrow> False
      | Some (status, d) \<Rightarrow> status = 429 \<or> status \<ge> 500)"
| "isRetryable err = False"

text \<open>
  The \<open>for\<close> loop of \<open>execute\<close>, from iteration \<open>attempt\<close> on, with the value of
  \<open>lastError\<close>. The delay is \<open>baseDelayMs * Math.pow(2, attempt)\<close>.
\<close>

function retry_loop ::
  "'s runtime \<Rightarrow> RetryMiddleware \<Rightarrow> ('s, 'a) NextFunction \<Rightarrow> nat \<Rightarrow> error \<Rightarrow> 's \<Rightarrow> 'a settled \<times> 's" where
  "retry_loop rt this next attempt lastError s =
     (if int attempt < maxAttempts this then
        (case next s of
           (Inr result, s') \<Rightarrow> (Inr result, s')
         | (Inl err, s') \<Rightarrow>
             if \<not> isRetryable err \<or> int attempt = maxAttempts this - 1 then (Inl err, s')
             else retry_loop rt this next (attempt + 1) err
                    (sleep rt (baseDelayMs this * 2 ^ attempt) s'))
      else (Inl lastError, s))"
  by pat_completeness auto
termination
  by (relation "measure (\<lambda>(rt, this, next, attempt, lastError, s). nat (maxAttempts this - int attempt))") auto

declare retry_loop.simps [simp del]

definition Retry_execute ::
  "'s runtime \<Rightarrow> RetryMiddleware \<Rightarrow> MiddlewareContext \<Rightarrow> ('s, 'a) NextFunction \<Rightarrow> 's \<Rightarrow> 'a settled \<times> 's" where
  "Retry_execute rt this ctx next s = retry_loop rt this next 0 Undefined s"

text \<open>
  Reading a trace: the number of invocations in it; the delay slept immediately before
  the \<open>n\<close>-th invocation (counted from 0), if there is one; and the trace of a run whose
  attempts, from iteration \<open>i\<close> on, had the outcomes \<open>rs\<close>: one sleep of
  \<open>b * 2 ^ i\<close> between attempt \<open>i\<close> and the next, none before the first or after the last.
\<close>

fun invocations :: "event list \<Rightarrow> nat" where
  "invocations [] = 0"
| "invocations (Invoked r # tr) = Suc (invocations tr)"
| "invocations (Slept d # tr) = invocations tr"


fun retry_trace :: "int \<Rightarrow> nat \<Rightarrow> error option list \<Rightarrow> event list" where
  "retry_trace b i [] = []"
| "retry_trace b i [r] = [Invoked r]"
| "retry_trace b i (r # rs) = Invoked r # Slept (b * 2 ^ i) # retry_trace b (Suc i) rs"








section \<open>Cache (middleware/cache.ts)\<close>

text \<open>
  \<open>MemoryCacheAdapter\<close>: a map from key to \<open>{value, expiresAt}\<close>. \<open>get\<close> at time
  \<open>Date.now()\<close> deletes an entry it finds expired; both return the map they leave.
\<close>

record 'a CacheEntry =
  entry_value :: 'a
  expiresAt :: int

type_synonym 'a MemoryCacheAdapter = "string \<rightharpoonup> 'a CacheEntry"

definition MemoryCacheAdapter_get ::
  "'s runtime \<Rightarrow> string \<Rightarrow> 'a MemoryCacheAdapter \<times> 's \<Rightarrow> 'a option \<times> 'a MemoryCacheAdapter" where
  "MemoryCacheAdapter_get rt key = (\<lambda>(cache, s).
     case cache key of
       None \<Rightarrow> (None, cache)
     | Some entry \<Rightarrow>
         if Date_now rt s > expiresAt entry then (None, cache(key := None))
         else (Some (entry_value entry), cache))"

definition MemoryCacheAdapter_set ::
  "'s runtime \<Rightarrow> string \<Rightarrow> 'a \<Rightarrow> int \<Rightarrow> 'a MemoryCacheAdapter \<times> 's \<Rightarrow> 'a MemoryCacheAdapter" where
  "MemoryCacheAdapter_set rt key v ttlMs = (\<lambda>(cache, s).
     cache(key \<mapsto> \<lparr>entry_value = v, expiresAt = Date_now rt s + ttlMs\<rparr>))"

text \<open>
  \<open>CacheMiddleware\<close> with the default adapter, a \<open>MemoryCacheAdapter\<close> of its own, and
  \<open>ttlMs = options?.ttlMs ?? 5 * 60 * 1000\<close>. (A custom \<open>options.adapter\<close> is any
  object with \<open>get\<close> and \<open>set\<close>; the model is of the adapter the repository provides.)
\<close>

record CacheOptions =
  opt_ttlMs :: "int option"

record 'a CacheMiddleware =
  adapter :: "'a MemoryCacheAdapter"
  ttlMs :: int

definition new_CacheMiddleware :: "CacheOptions option \<Rightarrow> 'a CacheMiddleware" where
  "new_CacheMiddleware options =
     \<lparr>adapter = Map.empty,
      ttlMs = (case Option.bind options opt_ttlMs of Some n \<Rightarrow> n | None \<Rightarrow> 5 * 60 * 1000)\<rparr>"

definition getCacheKey :: "MiddlewareContext \<Rightarrow> string" where
  "getCacheKey ctx = courierCode ctx @ '':'' @ trackingNumber ctx"

text \<open>
  \<open>CacheMiddleware.execute\<close>. A cached \<open>TrackingResult\<close> is an object, so \<open>if (cached)\<close>
  holds exactly when \<open>get\<close> returned one.
\<close>

definition Cache_execute ::
  "'s runtime \<Rightarrow> MiddlewareContext \<Rightarrow> ('s, 'a) NextFunction \<Rightarrow>
     'a CacheMiddleware \<times> 's \<Rightarrow> 'a settled \<times> 'a CacheMiddleware \<times> 's" where
  "Cache_execute rt ctx next = (\<lambda>(this, s).
     let key = getCacheKey ctx in
     case MemoryCacheAdapter_get rt key (adapter this, s) of
       (Some cached, cache1) \<Rightarrow> (Inr cached, this\<lparr>adapter := cache1\<rparr>, s)
     | (None, cache1) \<Rightarrow>
         (case next s of
            (Inr result, s') \<Rightarrow>
              (Inr result,
               this\<lparr>adapter := MemoryCacheAdapter_set rt key result (ttlMs this) (cache1, s')\<rparr>, s')
          | (Inl err, s') \<Rightarrow> (Inl err, this\<lparr>adapter := cache1\<rparr>, s')))"

text \<open>A downstream call that fulfils with a fixed value after one millisecond.\<close>

definition succeeding :: "'a \<Rightarrow> (int, 'a) NextFunction" where
  "succeeding v = (\<lambda>t. (Inr v, t + 1))"

text \<open>One that rejects after one millisecond, whatever its result type.\<close>

definition rejecting :: "(int, 'a) NextFunction" where
  "rejecting = (\<lambda>t. (Inl (PlainError ''fail''), t + 1))"

text \<open>
  Executions that overlap. \<open>execute\<close> runs in three stretches, with an \<open>await\<close> between
  them: it calls \<open>adapter.get\<close>, which reads the map at once; when it resumes, it
  returns what \<open>get\<close> found or, on a miss, invokes \<open>next()\<close>; when the promise of
  \<open>next()\<close> has settled, it throws the rejection or calls \<open>adapter.set\<close>, which writes
  the map at once, and returns the result. Other executions on the same instance may run
  their stretches between these. A run of executions for one context is a list of such
  stretches, each with the execution it belongs to; \<open>Gets\<close> and \<open>NextSettles\<close> have the
  value of \<open>Date.now()\<close> in the stretch, and \<open>NextSettles\<close> the outcome of \<open>next()\<close>.
  The state of a run is the instance, what \<open>get\<close> found for the executions that have
  not resumed, the executions that await \<open>next()\<close>, the number of invocations of
  \<open>next()\<close>, and the outcomes of the executions that are over.
\<close>

datatype ('c, 'a) cache_event = Gets 'c int | Resumes 'c | NextSettles 'c "'a settled" int

record ('c, 'a) CacheCalls =
  cc_this :: "'a CacheMiddleware"
  cc_got :: "('c \<times> 'a option) list"
  cc_awaiting :: "'c list"
  cc_invoked :: nat
  cc_returned :: "('c \<times> 'a settled) list"

fun cache_step ::
  "MiddlewareContext \<Rightarrow> ('c, 'a) CacheCalls \<Rightarrow> ('c, 'a) cache_event \<Rightarrow> ('c, 'a) CacheCalls" where
  "cache_step ctx run (Gets c now) =
     (case MemoryCacheAdapter_get clock_runtime (getCacheKey ctx) (adapter (cc_this run), now) of
        (cached, cache1) \<Rightarrow>
          run\<lparr>cc_this := (cc_this run)\<lparr>adapter := cache1\<rparr>, cc_got := cc_got run @ [(c, cached)]\<rparr>)"
| "cache_step ctx run (Resumes c) =
     (case map_of (cc_got run) c of
        None \<Rightarrow> run
      | Some (Some cached) \<Rightarrow>
          run\<lparr>cc_got := filter (\<lambda>(c', g). c' \<noteq> c) (cc_got run),
              cc_returned := cc_returned run @ [(c, Inr cached)]\<rparr>
      | Some None \<Rightarrow>
          run\<lparr>cc_got := filter (\<lambda>(c', g). c' \<noteq> c) (cc_got run),
              cc_awaiting := cc_awaiting run @ [c], cc_invoked := Suc (cc_invoked run)\<rparr>)"
| "cache_step ctx run (NextSettles c r now) =
     (if c \<in> set (cc_awaiting run) then
        (case r of
           Inl err \<Rightarrow>
             run\<lparr>cc_awaiting := removeAll c (cc_awaiting run), cc_returned := cc_returned run @ [(c, Inl err)]\<rparr>
         | Inr result \<Rightarrow>
             run\<lparr>cc_this := (cc_this run)\<lparr>adapter :=
                    MemoryCacheAdapter_set clock_runtime (getCacheKey ctx) result (ttlMs (cc_this run))
                      (adapter (cc_this run), now)\<rparr>,
                 cc_awaiting := removeAll c (cc_awaiting run),
                 cc_returned := cc_returned run @ [(c, Inr result)]\<rparr>)
      else run)"

definition cache_run ::
  "MiddlewareContext \<Rightarrow> 'a CacheMiddleware \<Rightarrow> ('c, 'a) cache_event list \<Rightarrow> ('c, 'a) CacheCalls" where
  "cache_run ctx this evs =
     foldl (cache_step ctx) \<lparr>cc_this = this, cc_got = [], cc_awaiting = [], cc_invoked = 0, cc_returned = []\<rparr> evs"

section \<open>Logger (middleware/logger.ts)\<close>

text \<open>Numbers in template strings: decimal digits, with a sign when negative.\<close>

fun show_nat :: "nat \<Rightarrow> string" where
  "show_nat n =
     (if n < 10 then [''0123456789'' ! n]
      else show_nat (n div 10) @ [''0123456789'' ! (n mod 10)])"

declare show_nat.simps [simp del]

definition show_int :: "int \<Rightarrow> string" where
  "show_int i = (if i < 0 then ''-'' @ show_nat (nat (- i)) else show_nat (nat i))"

record 's LoggerOptions =
  opt_log :: "(string \<Rightarrow> 's \<Rightarrow> 's) option"

record 's LoggerMiddleware =
  log :: "string \<Rightarrow> 's \<Rightarrow> 's"

text \<open>The constructor: \<open>options?.log ?? console.log\<close>.\<close>

definition new_LoggerMiddleware :: "'s runtime \<Rightarrow> 's LoggerOptions option \<Rightarrow> 's LoggerMiddleware" where
  "new_LoggerMiddleware rt options =
     \<lparr>log = (case Option.bind options opt_log of Some f \<Rightarrow> f | None \<Rightarrow> console_log rt)\<rparr>"

definition log_prefix :: "MiddlewareContext \<Rightarrow> string" where
  "log_prefix ctx = ''[tracking] '' @ courierCode ctx @ '':'' @ trackingNumber ctx"

text \<open>
  \<open>LoggerMiddleware.execute\<close>. In the \<open>catch\<close> block the message of the error is read
  before \<open>log\<close> is called, so a thrown \<open>undefined\<close> makes the block itself throw.
\<close>

definition Logger_execute ::
  "'s runtime \<Rightarrow> 's LoggerMiddleware \<Rightarrow> MiddlewareContext \<Rightarrow> ('s, 'a) NextFunction \<Rightarrow> 's \<Rightarrow> 'a settled \<times> 's" where
  "Logger_execute rt this ctx next s =
     (let start = Date_now rt s;
          s1 = log this (log_prefix ctx @ '' - start'') s
      in case next s1 of
           (Inr result, s2) \<Rightarrow>
             (let duration = Date_now rt s2 - start
              in (Inr result, log this (log_prefix ctx @ '' - success ('' @ show_int duration @ ''ms)'') s2))
         | (Inl err, s2) \<Rightarrow>
             (let duration = Date_now rt s2 - start
              in case message err of
                   None \<Rightarrow> (Inl TypeError, s2)
                 | Some m \<Rightarrow>
                     (Inl err,
                      log this (log_prefix ctx @ '' - error ('' @ show_int duration @ ''ms): '' @ m) s2)))"

section \<open>Rate limiter (middleware/rate-limiter.ts)\<close>

text \<open>
  A \<open>Bottleneck\<close> limiter is kept as the settings it was built with. \<open>schedule\<close> runs
  the continuation once, when the limiter's budget allows; how long that takes is the
  library's and is not modelled.
\<close>

record ConstructorOptions =
  maxConcurrent :: int
  minTime :: int

record RateLimiterOptions =
  limits :: "(string \<rightharpoonup> ConstructorOptions) option"

definition DEFAULT_LIMITS :: "string \<rightharpoonup> ConstructorOptions" where
  "DEFAULT_LIMITS =
     [''fedex'' \<mapsto> \<lparr>maxConcurrent = 5, minTime = 200\<rparr>,
      ''ups'' \<mapsto> \<lparr>maxConcurrent = 3, minTime = 333\<rparr>,
      ''usps'' \<mapsto> \<lparr>maxConcurrent = 5, minTime = 200\<rparr>]"

record RateLimiterMiddleware =
  limiters :: "string \<rightharpoonup> ConstructorOptions"
  limiter_options :: RateLimiterOptions

definition new_RateLimiterMiddleware :: "RateLimiterOptions option \<Rightarrow> RateLimiterMiddleware" where
  "new_RateLimiterMiddleware opts =
     \<lparr>limiters = Map.empty,
      limiter_options = (case opts of Some c \<Rightarrow> c | None \<Rightarrow> \<lparr>limits = None\<rparr>)\<rparr>"

definition getLimiter :: "RateLimiterMiddleware \<Rightarrow> string \<Rightarrow> ConstructorOptions \<times> RateLimiterMiddleware" where
  "getLimiter this code =
     (case limiters this code of
        Some limiter \<Rightarrow> (limiter, this)
      | None \<Rightarrow>
          (let config =
             (case Option.bind (limits (limiter_options this)) (\<lambda>m. m code) of
                Some c \<Rightarrow> c
              | None \<Rightarrow>
                  (case DEFAULT_LIMITS code of
                     Some c \<Rightarrow> c
                   | None \<Rightarrow> \<lparr>maxConcurrent = 5, minTime = 200\<rparr>))
           in (config, this\<lparr>limiters := (limiters this)(code \<mapsto> config)\<rparr>)))"

definition RateLimiter_execute ::
  "'s runtime \<Rightarrow> MiddlewareContext \<Rightarrow> ('s, 'a) NextFunction \<Rightarrow>
     RateLimiterMiddleware \<times> 's \<Rightarrow> 'a settled \<times> RateLimiterMiddleware \<times> 's" where
  "RateLimiter_execute rt ctx next = (\<lambda>(this0, s).
     case getLimiter this0 (courierCode ctx) of (limiter, this) \<Rightarrow>
     (case next s of (r, s') \<Rightarrow> (r, this, s')))"

section \<open>Providers (providers/base-provider.ts)\<close>

record TokenCache =
  token :: string
  token_expiresAt :: int

definition TOKEN_BUFFER_MS :: int where
  "TOKEN_BUFFER_MS = 60000"

text \<open>
  A provider instance: its configuration, its token cache and the methods its subclass
  supplies. The token endpoint (the \<open>axios\<close> POST of \<open>refreshToken\<close>) answers with
  \<open>access_token\<close> and \<open>expires_in\<close>; \<open>fetchTrackingData\<close> takes the tracking number and
  the token. The base URL is fixed per instance and is part of these two. \<open>process_env\<close>
  is the environment as \<open>validateCreds\<close> reads it.
\<close>

record ('s, 'raw, 'ev) BaseProvider =
  provider_name :: string
  provider_code :: string
  creds :: "(string \<times> string) option"
  envVars :: "string \<times> string"
  process_env :: "string \<rightharpoonup> string"
  tokenCache :: "TokenCache option"
  requestToken :: "'s \<Rightarrow> (error + string \<times> int) \<times> 's"
  fetchTrackingData :: "string \<Rightarrow> string \<Rightarrow> 's \<Rightarrow> (error + 'raw) \<times> 's"
  checkForError :: "'raw \<Rightarrow> error option"
  parseResponse :: "'raw \<Rightarrow> error + 'ev list \<times> int option"

record ('raw, 'ev) TrackingResult =
  events :: "'ev list"
  estimatedDeliveryTime :: "int option"
  courier :: string
  result_trackingNumber :: string
  raw :: 'raw

text \<open>\<open>validateCreds\<close>: \<open>!process.env[x]\<close> holds for an unset and for an empty variable.\<close>

definition unset :: "(string \<rightharpoonup> string) \<Rightarrow> string \<Rightarrow> bool" where
  "unset env x = (case env x of None \<Rightarrow> True | Some v \<Rightarrow> v = [])"

definition validateCreds :: "('s, 'raw, 'ev) BaseProvider \<Rightarrow> error option" where
  "validateCreds this =
     (if creds this \<noteq> None then None
      else (case envVars this of (clientId, clientSecret) \<Rightarrow>
        if unset (process_env this) clientId then
          Some (PlainError (''Environment variable \"'' @ clientId @ ''\" must be set in order to use ''
                            @ provider_name this @ '' tracking.''))
        else if unset (process_env this) clientSecret then
          Some (PlainError (''Environment variable \"'' @ clientSecret @ ''\" must be set in order to use ''
                            @ provider_name this @ '' tracking.''))
        else None))"

text \<open>
  \<open>refreshToken\<close>: the cache is written when the token endpoint has answered, with the
  clock of that moment.
\<close>

definition refreshToken ::
  "'s runtime \<Rightarrow> ('s, 'raw, 'ev) BaseProvider \<times> 's \<Rightarrow> string settled \<times> ('s, 'raw, 'ev) BaseProvider \<times> 's" where
  "refreshToken rt = (\<lambda>(this, s).
     case requestToken this s of
       (Inl err, s') \<Rightarrow> (Inl err, this, s')
     | (Inr (access_token, expires_in), s') \<Rightarrow>
         (Inr access_token,
          this\<lparr>tokenCache := Some \<lparr>token = access_token,
                                   token_expiresAt = Date_now rt s' + expires_in * 1000 - TOKEN_BUFFER_MS\<rparr>\<rparr>,
          s'))"

text \<open>
  \<open>getToken\<close> when calls do not overlap: \<open>tokenPromise\<close> is set and cleared within one
  call, so it is \<open>null\<close> whenever the method is entered, and the second \<open>if\<close> is not
  taken. (The model of overlapping calls, with \<open>tokenPromise\<close>, follows below.)
\<close>

definition getToken ::
  "'s runtime \<Rightarrow> ('s, 'raw, 'ev) BaseProvider \<times> 's \<Rightarrow> string settled \<times> ('s, 'raw, 'ev) BaseProvider \<times> 's" where
  "getToken rt = (\<lambda>(this, s).
     case tokenCache this of
       Some tc \<Rightarrow> if Date_now rt s < token_expiresAt tc then (Inr (token tc), this, s)
                 else refreshToken rt (this, s)
     | None \<Rightarrow> refreshToken rt (this, s))"

text \<open>
  \<open>fetchWithAuthRetry\<close>. Its \<open>catch\<close> block reads \<open>err.response?.status\<close> from whatever
  the data call rejected with, of any class; when that is \<open>undefined\<close>, reading
  \<open>err.response\<close> throws a \<open>TypeError\<close> out of the block.
\<close>

definition fetchWithAuthRetry ::
  "'s runtime \<Rightarrow> string \<Rightarrow> string \<Rightarrow> ('s, 'raw, 'ev) BaseProvider \<times> 's \<Rightarrow>
     'raw settled \<times> ('s, 'raw, 'ev) BaseProvider \<times> 's" where
  "fetchWithAuthRetry rt trackingNo tok = (\<lambda>(this, s).
     case fetchTrackingData this trackingNo tok s of
       (Inr data, s1) \<Rightarrow> (Inr data, this, s1)
     | (Inl err, s1) \<Rightarrow>
         if err = Undefined then (Inl TypeError, this, s1)
         else if response_status err = Some 401 then
           (case getToken rt (this\<lparr>tokenCache := None\<rparr>, s1) of
              (Inl err2, this2, s2) \<Rightarrow> (Inl err2, this2, s2)
            | (Inr newToken, this2, s2) \<Rightarrow>
                (case fetchTrackingData this2 trackingNo newToken s2 of
                   (r, s3) \<Rightarrow> (r, this2, s3)))
         else (Inl err, this, s1))"

text \<open>
  The \<open>catch\<close> block of \<open>track\<close>, in a provider of name \<open>name\<close> tracking
  \<open>trackingNo\<close>. \<open>AuthenticationError\<close> extends \<open>ProviderError\<close>; both are rethrown. Any
  other error is replaced by a \<open>ProviderError\<close> that has it as its \<open>cause\<close>: when the
  error has a response with data, the message is the data (as JSON) and \<open>raw\<close> is the
  data; otherwise the message is the message of the error and there is no \<open>raw\<close>.
  Reading \<open>response\<close> from a thrown \<open>undefined\<close> throws a \<open>TypeError\<close> out of the
  block.
\<close>

definition wrapped :: "string \<Rightarrow> string \<Rightarrow> error \<Rightarrow> string \<Rightarrow> error" where
  "wrapped name trackingNo err m =
     (case response_data err of
        Some data \<Rightarrow> ProviderError data name trackingNo (Some data) (Some err)
      | None \<Rightarrow> ProviderError m name trackingNo None (Some err))"

fun track_catch :: "string \<Rightarrow> string \<Rightarrow> error \<Rightarrow> error" where
  "track_catch name trackingNo (ProviderError m c n r cause) = ProviderError m c n r cause"
| "track_catch name trackingNo (AuthenticationError m c n cause) = AuthenticationError m c n cause"
| "track_catch name trackingNo (AxiosError m response) = wrapped name trackingNo (AxiosError m response) m"
| "track_catch name trackingNo (ResponseError m response) = wrapped name trackingNo (ResponseError m response) m"
| "track_catch name trackingNo (PlainError m) = wrapped name trackingNo (PlainError m) m"
| "track_catch name trackingNo (TrackingError m) = wrapped name trackingNo (TrackingError m) m"
| "track_catch name trackingNo Undefined = TypeError"

text \<open>
  \<open>track\<close>. \<open>validateCreds\<close> is called outside the \<open>try\<close> block. (\<open>this.name\<close> is
  fixed at construction.)
\<close>

definition BaseProvider_track ::
  "'s runtime \<Rightarrow> string \<Rightarrow> ('s, 'raw, 'ev) BaseProvider \<times> 's \<Rightarrow>
     ('raw, 'ev) TrackingResult settled \<times> ('s, 'raw, 'ev) BaseProvider \<times> 's" where
  "BaseProvider_track rt trackingNo = (\<lambda>(this, s).
     case validateCreds this of
       Some err \<Rightarrow> (Inl err, this, s)
     | None \<Rightarrow>
         (case getToken rt (this, s) of
            (Inl err, this1, s1) \<Rightarrow> (Inl (track_catch (provider_name this) trackingNo err), this1, s1)
          | (Inr tok, this1, s1) \<Rightarrow>
              (case fetchWithAuthRetry rt trackingNo tok (this1, s1) of
                 (Inl err, this2, s2) \<Rightarrow> (Inl (track_catch (provider_name this) trackingNo err), this2, s2)
               | (Inr data, this2, s2) \<Rightarrow>
                   (case checkForError this2 data of
                      Some err \<Rightarrow> (Inl (track_catch (provider_name this) trackingNo err), this2, s2)
                    | None \<Rightarrow>
                        (case parseResponse this2 data of
                           Inl err \<Rightarrow> (Inl (track_catch (provider_name this) trackingNo err), this2, s2)
                         | Inr (evs, eta) \<Rightarrow>
                             (Inr \<lparr>events = evs, estimatedDeliveryTime = eta,
                                   courier = provider_code this2,
                                   result_trackingNumber = trackingNo, raw = data\<rparr>,
                              this2, s2))))))"

text \<open>
  Instrumentation for statements about the calls a provider makes: the world is paired
  with a trace of its token requests and of its data calls, each with the token it used.
\<close>

datatype call = TokenRequested | DataCall string

definition recording ::
  "('s, 'raw, 'ev) BaseProvider \<Rightarrow> (call list \<times> 's, 'raw, 'ev) BaseProvider" where
  "recording this =
     \<lparr>provider_name = provider_name this, provider_code = provider_code this, creds = creds this,
      envVars = envVars this, process_env = process_env this, tokenCache = tokenCache this,
      requestToken = (\<lambda>(tr, s). case requestToken this s of (r, s') \<Rightarrow> (r, (tr @ [TokenRequested], s'))),
      fetchTrackingData = (\<lambda>n tok (tr, s).
         case fetchTrackingData this n tok s of (r, s') \<Rightarrow> (r, (tr @ [DataCall tok], s'))),
      checkForError = checkForError this, parseResponse = parseResponse this\<rparr>"

definition recorded :: "'s runtime \<Rightarrow> (call list \<times> 's) runtime" where
  "recorded rt = \<lparr>Date_now = (\<lambda>(tr, s). Date_now rt s),
                  sleep = (\<lambda>d (tr, s). (tr, sleep rt d s)),
                  console_log = (\<lambda>m (tr, s). (tr, console_log rt m s))\<rparr>"


text \<open>
  A provider whose data call always answers 401, with credentials configured, a cached
  token that has not expired, and a token endpoint that issues a fresh token. The world
  is a clock.
\<close>

definition http401 :: error where
  "http401 = AxiosError ''Request failed with status code 401'' (Some (401, None))"


section \<open>Overlapping getToken calls (providers/base-provider.ts)\<close>

text \<open>
  \<open>getToken\<close> and \<open>refreshToken\<close> are \<open>async\<close> functions on one thread: each runs
  without interruption from one \<open>await\<close> to the next. The model has one step for each
  such stretch, on the token state of one provider instance.

  \<^item> \<open>GetToken c now\<close>: caller \<open>c\<close> enters \<open>getToken\<close> at clock \<open>now\<close> and runs to its
    first suspension. With a valid cached token it returns it. Otherwise, with a
    \<open>tokenPromise\<close> set, it returns that promise: it joins the refresh in flight. Otherwise
    it sets \<open>tokenPromise = this.refreshToken(baseUrl)\<close>, which issues the token request,
    and awaits it.
  \<^item> \<open>Settled response now\<close>: the token request in flight is answered. \<open>refreshToken\<close>
    resumes at clock \<open>now\<close>: on an answer it writes the cache and fulfils the promise with
    the token, on an error it rejects it. Then the caller that started the refresh
    resumes, leaves through \<open>finally\<close> (\<open>tokenPromise = null\<close>), and it and every caller
    that joined settle as the promise did.

  \<open>lc_tokenPromise\<close> holds, for the promise in flight, the caller that started it and the
  callers that joined it. \<open>lc_requests\<close> counts the token requests issued and
  \<open>lc_delivered\<close> lists what each caller's \<open>getToken\<close> settled with; neither is of the code.
\<close>

record 'c flight =
  owner :: 'c
  joiners :: "'c list"

record 'c TokenLifecycle =
  lc_tokenCache :: "TokenCache option"
  lc_tokenPromise :: "'c flight option"
  lc_requests :: nat
  lc_delivered :: "('c \<times> string settled) list"

datatype 'c token_event =
    GetToken 'c int
  | Settled "error + string \<times> int" int

definition cache_valid :: "'c TokenLifecycle \<Rightarrow> int \<Rightarrow> bool" where
  "cache_valid a now = (case lc_tokenCache a of None \<Rightarrow> False | Some tc \<Rightarrow> now < token_expiresAt tc)"

fun token_step :: "'c TokenLifecycle \<Rightarrow> 'c token_event \<Rightarrow> 'c TokenLifecycle" where
  "token_step a (GetToken c now) =
     (case lc_tokenCache a of
        Some tc \<Rightarrow>
          if now < token_expiresAt tc then a\<lparr>lc_delivered := lc_delivered a @ [(c, Inr (token tc))]\<rparr>
          else (case lc_tokenPromise a of
                  Some fl \<Rightarrow> a\<lparr>lc_tokenPromise := Some (fl\<lparr>joiners := joiners fl @ [c]\<rparr>)\<rparr>
                | None \<Rightarrow> a\<lparr>lc_tokenPromise := Some \<lparr>owner = c, joiners = []\<rparr>,
                            lc_requests := lc_requests a + 1\<rparr>)
      | None \<Rightarrow>
          (case lc_tokenPromise a of
             Some fl \<Rightarrow> a\<lparr>lc_tokenPromise := Some (fl\<lparr>joiners := joiners fl @ [c]\<rparr>)\<rparr>
           | None \<Rightarrow> a\<lparr>lc_tokenPromise := Some \<lparr>owner = c, joiners = []\<rparr>,
                       lc_requests := lc_requests a + 1\<rparr>))"
| "token_step a (Settled response now) =
     (case lc_tokenPromise a of
        None \<Rightarrow> a
      | Some fl \<Rightarrow>
          (case response of
             Inl err \<Rightarrow>
               a\<lparr>lc_tokenPromise := None,
                 lc_delivered := lc_delivered a @ map (\<lambda>c. (c, Inl err)) (owner fl # joiners fl)\<rparr>
           | Inr (access_token, expires_in) \<Rightarrow>
               a\<lparr>lc_tokenCache := Some \<lparr>token = access_token,
                     token_expiresAt = now + expires_in * 1000 - TOKEN_BUFFER_MS\<rparr>,
                 lc_tokenPromise := None,
                 lc_delivered := lc_delivered a @ map (\<lambda>c. (c, Inr access_token)) (owner fl # joiners fl)\<rparr>))"

definition token_run :: "'c TokenLifecycle \<Rightarrow> 'c token_event list \<Rightarrow> 'c TokenLifecycle" where
  "token_run a evs = foldl token_step a evs"

text \<open>What a refresh settles with, given the answer of the token endpoint.\<close>

fun refresh_outcome :: "error + string \<times> int \<Rightarrow> string settled" where
  "refresh_outcome (Inl err) = Inl err"
| "refresh_outcome (Inr (access_token, expires_in)) = Inr access_token"

definition fresh_lifecycle :: "nat TokenLifecycle" where
  "fresh_lifecycle = \<lparr>lc_tokenCache = None, lc_tokenPromise = None, lc_requests = 0, lc_delivered = []\<rparr>"

section \<open>The middleware chain (tracker.ts)\<close>

text \<open>
  The middlewares of the repository, each an instance with its own state. (\<open>Middleware\<close>
  is an interface; these are the classes that implement it.)
\<close>

datatype ('w, 'a) Middleware =
    RateLimiter RateLimiterMiddleware
  | Retry RetryMiddleware
  | CircuitBreaker CircuitBreakerMiddleware
  | Cache "'a CacheMiddleware"
  | Logger "'w LoggerMiddleware"

text \<open>
  The state of one run of \<open>executeMiddlewareChain\<close>: the local variable \<open>index\<close>, which
  the closure \<open>next\<close> shares between all its invocations; the instances of
  \<open>this.middlewares\<close>; and the world. \<open>exhausted\<close> is not of the code: it is set when
  the model's bound on the nesting of \<open>next()\<close> calls is reached, and a run that sets it
  has no result.
\<close>

record ('w, 'a) chain_state =
  index :: nat
  middlewares :: "('w, 'a) Middleware list"
  exhausted :: bool
  world :: 'w

definition chain_runtime :: "'w runtime \<Rightarrow> ('w, 'a) chain_state runtime" where
  "chain_runtime rt =
     \<lparr>Date_now = (\<lambda>st. Date_now rt (world st)),
      sleep = (\<lambda>d st. st\<lparr>world := sleep rt d (world st)\<rparr>),
      console_log = (\<lambda>m st. st\<lparr>world := console_log rt m (world st)\<rparr>)\<rparr>"

text \<open>The terminal call \<open>execute\<close>, which acts on the world only.\<close>

definition terminal_call :: "('w, 'a) NextFunction \<Rightarrow> (('w, 'a) chain_state, 'a) NextFunction" where
  "terminal_call execute st = (case execute (world st) of (r, w') \<Rightarrow> (r, st\<lparr>world := w'\<rparr>))"

text \<open>
  \<open>middleware.execute(ctx, next)\<close> for the instance \<open>mw\<close> found at position \<open>i\<close>: the
  method of its class, with the state the instance is left in written back to its
  position.
\<close>

definition Middleware_execute ::
  "'w runtime \<Rightarrow> MiddlewareContext \<Rightarrow> ('w, 'a) Middleware \<Rightarrow> nat \<Rightarrow>
     (('w, 'a) chain_state, 'a) NextFunction \<Rightarrow> (('w, 'a) chain_state, 'a) NextFunction" where
  "Middleware_execute rt ctx mw i next st =
     (case mw of
        RateLimiter this \<Rightarrow>
          (case RateLimiter_execute (chain_runtime rt) ctx next (this, st) of
             (r, this', st') \<Rightarrow> (r, st'\<lparr>middlewares := (middlewares st')[i := RateLimiter this']\<rparr>))
      | Retry this \<Rightarrow> Retry_execute (chain_runtime rt) this ctx next st
      | CircuitBreaker this \<Rightarrow>
          (case CircuitBreaker_execute (chain_runtime rt) ctx next (this, st) of
             (r, this', st') \<Rightarrow> (r, st'\<lparr>middlewares := (middlewares st')[i := CircuitBreaker this']\<rparr>))
      | Cache this \<Rightarrow>
          (case Cache_execute (chain_runtime rt) ctx next (this, st) of
             (r, this', st') \<Rightarrow> (r, st'\<lparr>middlewares := (middlewares st')[i := Cache this']\<rparr>))
      | Logger this \<Rightarrow>
          Logger_execute (chain_runtime rt)
            \<lparr>log = (\<lambda>m st. st\<lparr>world := log this m (world st)\<rparr>)\<rparr> ctx next st)"

text \<open>
  The closure \<open>next\<close> of \<open>executeMiddlewareChain\<close>, reading and incrementing the shared
  \<open>index\<close>. The first argument bounds how deep \<open>next()\<close> calls may nest below this one.
\<close>

primrec chain_next ::
  "nat \<Rightarrow> 'w runtime \<Rightarrow> MiddlewareContext \<Rightarrow> ('w, 'a) NextFunction \<Rightarrow>
     (('w, 'a) chain_state, 'a) NextFunction" where
  "chain_next 0 rt ctx execute st =
     (if index st \<ge> length (middlewares st) then terminal_call execute st
      else (Inl Undefined, st\<lparr>exhausted := True\<rparr>))"
| "chain_next (Suc d) rt ctx execute st =
     (if index st \<ge> length (middlewares st) then terminal_call execute st
      else (let middleware = middlewares st ! index st;
                i = index st
            in Middleware_execute rt ctx middleware i (chain_next d rt ctx execute)
                 (st\<lparr>index := index st + 1\<rparr>)))"

text \<open>
  \<open>executeMiddlewareChain\<close>: the outcome, the instances and the world it leaves. The
  nesting bound is the number of middlewares, which the index rules out reaching.
\<close>

definition executeMiddlewareChain ::
  "'w runtime \<Rightarrow> ('w, 'a) Middleware list \<Rightarrow> MiddlewareContext \<Rightarrow> ('w, 'a) NextFunction \<Rightarrow> 'w \<Rightarrow>
     ('a settled \<times> ('w, 'a) Middleware list \<times> 'w) option" where
  "executeMiddlewareChain rt mws ctx execute w =
     (if length mws = 0 then (case execute w of (r, w') \<Rightarrow> Some (r, mws, w'))
      else
        (case chain_next (length mws) rt ctx execute
                \<lparr>index = 0, middlewares = mws, exhausted = False, world = w\<rparr> of
           (r, st) \<Rightarrow> if exhausted st then None else Some (r, middlewares st, world st)))"

text \<open>
  The onion of the spec, for comparison: with \<open>k\<close> middlewares still inside, the
  continuation handed to the middleware at position \<open>length - k\<close> runs the middlewares
  after it and then the terminal call, at every invocation. It does not use \<open>index\<close>.
\<close>

primrec onion_next ::
  "nat \<Rightarrow> 'w runtime \<Rightarrow> MiddlewareContext \<Rightarrow> ('w, 'a) NextFunction \<Rightarrow>
     (('w, 'a) chain_state, 'a) NextFunction" where
  "onion_next 0 rt ctx execute st = terminal_call execute st"
| "onion_next (Suc k) rt ctx execute st =
     (let i = length (middlewares st) - Suc k
      in Middleware_execute rt ctx (middlewares st ! i) i (onion_next k rt ctx execute) st)"

definition onion ::
  "'w runtime \<Rightarrow> ('w, 'a) Middleware list \<Rightarrow> MiddlewareContext \<Rightarrow> ('w, 'a) NextFunction \<Rightarrow> 'w \<Rightarrow>
     'a settled \<times> ('w, 'a) Middleware list \<times> 'w" where
  "onion rt mws ctx execute w =
     (case onion_next (length mws) rt ctx execute
             \<lparr>index = 0, middlewares = mws, exhausted = False, world = w\<rparr> of
        (r, st) \<Rightarrow> (r, middlewares st, world st))"

section \<open>createTracker (tracker.ts)\<close>

text \<open>An entry of the \<open>middlewares\<close> config: absent, a boolean, or an options object.\<close>

datatype 'c toggle = Unset | Flag bool | Options 'c

record 'w MiddlewaresConfig =
  cache :: "CacheOptions toggle"
  retry :: "RetryOptions toggle"
  rateLimiter :: "RateLimiterOptions toggle"
  circuitBreaker :: "CircuitBreakerOptions toggle"
  logger :: "'w LoggerOptions toggle"

text \<open>\<open>options?.middlewares ?? {}\<close>; \<open>None\<close> is an absent \<open>middlewares\<close> or absent options.\<close>

definition mwConfig_of :: "'w MiddlewaresConfig option \<Rightarrow> 'w MiddlewaresConfig" where
  "mwConfig_of cfg =
     (case cfg of
        Some c \<Rightarrow> c
      | None \<Rightarrow> \<lparr>cache = Unset, retry = Unset, rateLimiter = Unset, circuitBreaker = Unset, logger = Unset\<rparr>)"

text \<open>
  The list \<open>middleware\<close> that \<open>createTracker\<close> builds and hands to the tracker. The empty
  options object \<open>{}\<close> is the options record with every field absent.
\<close>

definition createTracker_middleware ::
  "'w runtime \<Rightarrow> 'w MiddlewaresConfig option \<Rightarrow> ('w, 'a) Middleware list" where
  "createTracker_middleware rt cfg =
     (let mwConfig = mwConfig_of cfg in
      (case rateLimiter mwConfig of
         Flag False \<Rightarrow> []
       | Options config \<Rightarrow> [RateLimiter (new_RateLimiterMiddleware (Some config))]
       | _ \<Rightarrow> [RateLimiter (new_RateLimiterMiddleware (Some \<lparr>limits = None\<rparr>))]) @
      (case retry mwConfig of
         Flag False \<Rightarrow> []
       | Options config \<Rightarrow> [Retry (new_RetryMiddleware (Some config))]
       | _ \<Rightarrow> [Retry (new_RetryMiddleware (Some \<lparr>opt_maxAttempts = None, opt_baseDelayMs = None\<rparr>))]) @
      (case circuitBreaker mwConfig of
         Flag False \<Rightarrow> []
       | Options config \<Rightarrow> [CircuitBreaker (new_CircuitBreakerMiddleware (Some config))]
       | _ \<Rightarrow> [CircuitBreaker (new_CircuitBreakerMiddleware
                  (Some \<lparr>opt_failureThreshold = None, opt_resetTimeoutMs = None\<rparr>))]) @
      (case cache mwConfig of
         Flag True \<Rightarrow> [Cache (new_CacheMiddleware (Some \<lparr>opt_ttlMs = None\<rparr>))]
       | Options config \<Rightarrow> [Cache (new_CacheMiddleware (Some config))]
       | _ \<Rightarrow> []) @
      (case logger mwConfig of
         Flag True \<Rightarrow> [Logger (new_LoggerMiddleware rt (Some \<lparr>opt_log = None\<rparr>))]
       | Options config \<Rightarrow> [Logger (new_LoggerMiddleware rt (Some config))]
       | _ \<Rightarrow> []))"

text \<open>The class of an instance, by name.\<close>

fun class_name :: "('w, 'a) Middleware \<Rightarrow> string" where
  "class_name (RateLimiter this) = ''RateLimiterMiddleware''"
| "class_name (Retry this) = ''RetryMiddleware''"
| "class_name (CircuitBreaker this) = ''CircuitBreakerMiddleware''"
| "class_name (Cache this) = ''CacheMiddleware''"
| "class_name (Logger this) = ''LoggerMiddleware''"

text \<open>The three instances built when nothing is configured: each from \<open>{}\<close>.\<close>

definition default_middleware :: "('w, 'a) Middleware list" where
  "default_middleware =
     [RateLimiter (new_RateLimiterMiddleware (Some \<lparr>limits = None\<rparr>)),
      Retry (new_RetryMiddleware (Some \<lparr>opt_maxAttempts = None, opt_baseDelayMs = None\<rparr>)),
      CircuitBreaker (new_CircuitBreakerMiddleware
        (Some \<lparr>opt_failureThreshold = None, opt_resetTimeoutMs = None\<rparr>))]"

section \<open>ShipmentTracker (tracker.ts)\<close>

text \<open>
  A registered provider as the tracker uses it: its name, its code, the courier codes of
  its \<open>tsTrackingNumberCouriers\<close>, and its \<open>track\<close> method, which subclasses may
  override; the state of the provider is part of the world the method acts on.
\<close>

record ('w, 'a) Provider =
  name_of :: string
  code_of :: string
  courier_codes :: "string list"
  track_of :: "string \<Rightarrow> ('w, 'a) NextFunction"

datatype ('a) track_event =
    TrackStart string string
  | TrackSuccess string string 'a
  | TrackError string string error

text \<open>
  The tracker: \<open>providers\<close> is a \<open>Map\<close>, kept as the list of its entries in insertion
  order; \<open>emit\<close> stands for the listeners of the three events (listeners that return).
  \<open>getTracking\<close> is the detection of the library \<open>ts-tracking-number\<close>: from a tracking
  number and the courier codes to try, the code of the courier it detects.
\<close>

record ('w, 'a) ShipmentTracker =
  providers :: "(string \<times> ('w, 'a) Provider) list"
  tracker_middlewares :: "('w, 'a) Middleware list"
  emit :: "'a track_event \<Rightarrow> 'w \<Rightarrow> 'w"
  getTracking :: "string \<Rightarrow> string list \<Rightarrow> string option"

text \<open>\<open>Map.set\<close>: a key already present keeps its place and takes the new value.\<close>

fun Map_set :: "(string \<times> 'v) list \<Rightarrow> string \<Rightarrow> 'v \<Rightarrow> (string \<times> 'v) list" where
  "Map_set [] k v = [(k, v)]"
| "Map_set ((k', v') # m) k v = (if k' = k then (k, v) # m else (k', v') # Map_set m k v)"

definition use :: "('w, 'a) Provider \<Rightarrow> ('w, 'a) ShipmentTracker \<Rightarrow> ('w, 'a) ShipmentTracker" where
  "use provider this = this\<lparr>providers := Map_set (providers this) (code_of provider) provider\<rparr>"

definition useMiddleware :: "('w, 'a) Middleware \<Rightarrow> ('w, 'a) ShipmentTracker \<Rightarrow> ('w, 'a) ShipmentTracker" where
  "useMiddleware middleware this = this\<lparr>tracker_middlewares := tracker_middlewares this @ [middleware]\<rparr>"

text \<open>\<open>xs.join(", ") || "(none)"\<close>.\<close>

fun join :: "string \<Rightarrow> string list \<Rightarrow> string" where
  "join sep [] = []"
| "join sep [x] = x"
| "join sep (x # xs) = x @ sep @ join sep xs"

definition join_or_none :: "string list \<Rightarrow> string" where
  "join_or_none xs = (if join '', '' xs = [] then ''(none)'' else join '', '' xs)"

definition detectCourier :: "('w, 'a) ShipmentTracker \<Rightarrow> string \<Rightarrow> error + string" where
  "detectCourier this trackingNo =
     (let allCouriers = concat (map (\<lambda>(k, p). courier_codes p) (providers this)) in
      case getTracking this trackingNo allCouriers of
        None \<Rightarrow>
          Inl (PlainError (''\"'' @ trackingNo @ ''\" is not a valid tracking number for registered providers. ''
                 @ ''Registered providers: '' @ join_or_none (map (\<lambda>(k, p). name_of p) (providers this))))
      | Some detectedCode \<Rightarrow>
          (case find (\<lambda>(k, p). detectedCode \<in> set (courier_codes p)) (providers this) of
             Some (k, provider) \<Rightarrow> Inr (code_of provider)
           | None \<Rightarrow> Inr detectedCode))"

text \<open>
  \<open>track\<close>. The result is \<open>None\<close> only if the chain has none, which does not happen.
\<close>

definition ShipmentTracker_track ::
  "'w runtime \<Rightarrow> string \<Rightarrow> string option \<Rightarrow> ('w, 'a) ShipmentTracker \<times> 'w \<Rightarrow>
     ('a settled \<times> ('w, 'a) ShipmentTracker \<times> 'w) option" where
  "ShipmentTracker_track rt trackingNo opts_courierCode = (\<lambda>(this, w).
     case (case opts_courierCode of Some c \<Rightarrow> Inr c | None \<Rightarrow> detectCourier this trackingNo) of
       Inl err \<Rightarrow> Some (Inl err, this, w)
     | Inr code \<Rightarrow>
         (case map_of (providers this) code of
            None \<Rightarrow>
              Some (Inl (PlainError (''No provider registered for courier code \"'' @ code @ ''\". ''
                      @ ''Registered providers: '' @ join_or_none (map fst (providers this)))),
                    this, w)
          | Some provider \<Rightarrow>
              (let ctx = \<lparr>trackingNumber = trackingNo, courierCode = code\<rparr>;
                   execute = track_of provider trackingNo;
                   w1 = emit this (TrackStart trackingNo code) w
               in case executeMiddlewareChain rt (tracker_middlewares this) ctx execute w1 of
                    None \<Rightarrow> None
                  | Some (Inr result, mws, w2) \<Rightarrow>
                      Some (Inr result, this\<lparr>tracker_middlewares := mws\<rparr>,
                            emit this (TrackSuccess trackingNo code result) w2)
                  | Some (Inl err, mws, w2) \<Rightarrow>
                      Some (Inl err, this\<lparr>tracker_middlewares := mws\<rparr>,
                            emit this (TrackError trackingNo code err) w2))))"

record BatchTrackingItem =
  item_trackingNumber :: string
  item_courierCode :: "string option"

record 'a BatchTrackingResult =
  batch_trackingNumber :: string
  result :: "'a option"
  error :: "error option"

text \<open>
  \<open>trackBatch\<close> starts the \<open>track\<close> call of every item before any of them has settled,
  so the calls overlap. An asynchronous call is a computation that runs in stretches,
  from one \<open>await\<close> to the next, each stretch acting on the world (the tracker, its
  middleware and its providers included) as the stretches of the other calls have left
  it: \<open>Finished r\<close> when it is over with outcome \<open>r\<close>; otherwise \<open>Suspended step rest\<close>,
  whose next stretch takes the world \<open>w\<close> to \<open>step w\<close> and leaves \<open>rest w\<close> to run.
  Every call of the model settles after finitely many stretches, as every continuation
  of the model does.
\<close>

datatype ('w, 'a) task = Finished "'a settled" | Suspended "'w \<Rightarrow> 'w" "'w \<Rightarrow> ('w, 'a) task"

fun outcome :: "('w, 'a) task \<Rightarrow> 'a settled option" where
  "outcome (Finished r) = Some r"
| "outcome (Suspended step rest) = None"

text \<open>The next stretch of the \<open>i\<close>-th of the calls; none when it has settled.\<close>

fun advance :: "('w, 'a) task list \<times> 'w \<Rightarrow> nat \<Rightarrow> ('w, 'a) task list \<times> 'w" where
  "advance (ts, w) i =
     (if i < length ts then
        (case ts ! i of
           Finished r \<Rightarrow> (ts, w)
         | Suspended step rest \<Rightarrow> (ts[i := rest w], step w))
      else (ts, w))"

text \<open>
  \<open>items.map((item) => this.track(...))\<close>: each call is made in turn, and an \<open>async\<close>
  function runs its first stretch when it is called. After that the stretches run in the
  order the event loop gives them: \<open>schedule\<close> lists whose turn it is.
\<close>

definition launch :: "('w, 'a) task list \<Rightarrow> 'w \<Rightarrow> ('w, 'a) task list \<times> 'w" where
  "launch ts w = foldl advance (ts, w) [0..<length ts]"

definition run_schedule :: "nat list \<Rightarrow> ('w, 'a) task list \<times> 'w \<Rightarrow> ('w, 'a) task list \<times> 'w" where
  "run_schedule schedule st = foldl advance st schedule"

text \<open>
  \<open>Promise.allSettled\<close>: once every call has settled, the outcomes, in the order of the
  calls. The result is \<open>None\<close> while a call is pending at the end of the schedule.
\<close>

definition allSettled ::
  "nat list \<Rightarrow> ('w, 'a) task list \<Rightarrow> 'w \<Rightarrow> ('a settled list \<times> 'w) option" where
  "allSettled schedule ts w =
     (case run_schedule schedule (launch ts w) of
        (ts', w') \<Rightarrow> map_option (\<lambda>results. (results, w')) (those (map outcome ts')))"

text \<open>
  \<open>result.reason instanceof Error ? result.reason : new Error(String(result.reason))\<close>:
  every error of the model is an \<open>Error\<close> but the thrown \<open>undefined\<close>.
\<close>

fun as_Error :: "error \<Rightarrow> error" where
  "as_Error Undefined = PlainError ''undefined''"
| "as_Error e = e"

definition batch_entry :: "BatchTrackingItem \<Rightarrow> 'a settled \<Rightarrow> 'a BatchTrackingResult" where
  "batch_entry item r =
     (case r of
        Inr v \<Rightarrow> \<lparr>batch_trackingNumber = item_trackingNumber item, result = Some v, error = None\<rparr>
      | Inl reason \<Rightarrow>
          \<lparr>batch_trackingNumber = item_trackingNumber item, result = None, error = Some (as_Error reason)\<rparr>)"

text \<open>
  \<open>trackBatch\<close>, under a schedule. \<open>track n c\<close> is the call
  \<open>this.track(n, {...opts, courierCode: c})\<close> as such a computation; the spread leaves the
  item's courier code as the only option. \<open>results.map\<close> pairs the outcomes with the
  items by position.
\<close>

definition track_calls ::
  "(string \<Rightarrow> string option \<Rightarrow> ('w, 'a) task) \<Rightarrow> BatchTrackingItem list \<Rightarrow> ('w, 'a) task list" where
  "track_calls track items = map (\<lambda>item. track (item_trackingNumber item) (item_courierCode item)) items"

definition trackBatch ::
  "(string \<Rightarrow> string option \<Rightarrow> ('w, 'a) task) \<Rightarrow> nat list \<Rightarrow> BatchTrackingItem list \<Rightarrow> 'w \<Rightarrow>
     ('a BatchTrackingResult list \<times> 'w) option" where
  "trackBatch track schedule items w =
     (case allSettled schedule (track_calls track items) w of
        None \<Rightarrow> None
      | Some (results, w') \<Rightarrow> Some (map2 batch_entry items results, w'))"


text \<open>
  A world for running the chain: a clock, the lines written to the console, and the
  outcomes the terminal call will settle with, in order (as a mock with queued results).
  The terminal call writes a line of its own, so that the console shows the order of
  what ran.
\<close>

record 'a test_world =
  clock :: int
  console :: "string list"
  script :: "'a settled list"

definition test_runtime :: "'a test_world runtime" where
  "test_runtime =
     \<lparr>Date_now = clock,
      sleep = (\<lambda>d w. w\<lparr>clock := clock w + d\<rparr>),
      console_log = (\<lambda>m w. w\<lparr>console := console w @ [m]\<rparr>)\<rparr>"

definition scripted :: "('a test_world, 'a) NextFunction" where
  "scripted w =
     (case script w of
        [] \<Rightarrow> (Inl (PlainError ''no response queued''), w\<lparr>console := console w @ [''terminal'']\<rparr>)
      | r # rs \<Rightarrow> (r, w\<lparr>console := console w @ [''terminal''], script := rs\<rparr>))"

text \<open>A logger that tags its lines, so that two loggers can be told apart.\<close>

definition tagged_logger :: "string \<Rightarrow> ('a test_world, 'a) Middleware" where
  "tagged_logger tag =
     Logger (new_LoggerMiddleware test_runtime
       (Some \<lparr>opt_log = Some (\<lambda>m w. w\<lparr>console := console w @ [tag @ m]\<rparr>)\<rparr>))"

definition http500 :: error where
  "http500 = AxiosError ''Request failed with status code 500'' (Some (500, None))"



text \<open>
  A call for looking at overlap, over a counter as the world: its first stretch adds one
  to the counter, its second does nothing, and it then fulfils with the counter as it
  finds it; without a courier code it rejects with the value \<open>undefined\<close> instead.
\<close>

definition counting_call :: "string \<Rightarrow> string option \<Rightarrow> (int, int) task" where
  "counting_call n c =
     Suspended (\<lambda>w. w + 1)
       (\<lambda>w. Suspended (\<lambda>w. w)
          (\<lambda>w. if c = None then Finished (Inl Undefined) else Finished (Inr w)))"

text \<open>
  For the proof that the nesting bound is never reached: a state is ready for a
  continuation with bound \<open>d\<close> when at most \<open>d\<close> middlewares lie at or after its index;
  a run advances when it leaves the bound unreached, the index no smaller and the list
  as long as it was.
\<close>

definition ready :: "nat \<Rightarrow> ('w, 'a) chain_state \<Rightarrow> bool" where
  "ready d st \<longleftrightarrow> \<not> exhausted st \<and> length (middlewares st) \<le> index st + d"

definition advances :: "('w, 'a) chain_state \<Rightarrow> ('w, 'a) chain_state \<Rightarrow> bool" where
  "advances st st' \<longleftrightarrow>
     \<not> exhausted st' \<and> index st \<le> index st' \<and> length (middlewares st') = length (middlewares st)"

definition good :: "nat \<Rightarrow> (('w, 'a) chain_state, 'a) NextFunction \<Rightarrow> bool" where
  "good d nx \<longleftrightarrow> (\<forall>st. ready d st \<longrightarrow> advances st (snd (nx st)))"

text \<open>
  For the comparison of the chain with the onion: two states that differ at most in
  \<open>index\<close>, and the middlewares that are not the retry middleware.
\<close>

definition index_free :: "('w, 'a) chain_state \<Rightarrow> ('w, 'a) chain_state \<Rightarrow> bool" where
  "index_free a b \<longleftrightarrow>
     middlewares b = middlewares a \<and> world b = world a \<and> exhausted b = exhausted a"

fun is_Retry :: "('w, 'a) Middleware \<Rightarrow> bool" where
  "is_Retry (Retry this) = True"
| "is_Retry mw = False"

section \<open>Proofs: the instrumented runtimes\<close>

lemma Date_now_counted [simp]: "Date_now (counted rt) (n, s) = Date_now rt s"
  by (simp add: counted_def)

lemma sleep_counted [simp]: "sleep (counted rt) d (n, s) = (n, sleep rt d s)"
  by (simp add: counted_def)

lemma Date_now_traced [simp]: "Date_now (traced rt) (tr, s) = Date_now rt s"
  by (simp add: traced_def)

lemma sleep_traced [simp]: "sleep (traced rt) d (tr, s) = (tr @ [Slept d], sleep rt d s)"
  by (simp add: traced_def)

lemma counting_apply [simp]: "counting next (n, s) = (fst (next s), (Suc n, snd (next s)))"
  by (simp add: counting_def split: prod.splits)

section \<open>Proofs: circuit breaker\<close>

lemma reachable_threshold:
  "c \<in> reachable this \<Longrightarrow> state c \<noteq> CLOSED \<Longrightarrow> failureThreshold this \<le> failures c"
proof (induction rule: reachable.induct)
  case r_init
  then show ?case by (simp add: initial_circuit_def)
next
  case (r_gate c code now c')
  then show ?case by (auto simp: gate_def split: if_splits)
next
  case (r_success c)
  then show ?case by (simp add: onSuccess_def)
next
  case (r_failure c now)
  then show ?case by (cases "state c = CLOSED") (auto simp: onFailure_def Let_def split: if_splits)
qed

lemma call_step_reachable: "c \<in> reachable this \<Longrightarrow> call_step this code c x \<in> reachable this"
  by (cases x) (auto split: sum.splits intro: reachable.intros)

lemma after_calls_reachable: "after_calls this code h \<in> reachable this"
  unfolding after_calls_def
  by (induction h rule: rev_induct) (auto intro: r_init call_step_reachable)

lemma closed_failures_count:
  "state (after_calls this code h) = CLOSED \<Longrightarrow>
     failures (after_calls this code h) = consecutive_failures h"
proof (induction h rule: rev_induct)
  case Nil
  then show ?case by (simp add: after_calls_def consecutive_failures_def initial_circuit_def)
next
  case (snoc x h)
  obtain t1 ok t2 where x: "x = (t1, ok, t2)" by (cases x)
  let ?c = "after_calls this code h"
  have step: "after_calls this code (h @ [x]) = call_step this code ?c x"
    by (simp add: after_calls_def)
  show ?case
  proof (cases "gate this code t1 ?c")
    case (Inl err)
    then have "state ?c = OPEN" by (auto simp: gate_def split: if_splits)
    with snoc.prems step x Inl show ?thesis by simp
  next
    case (Inr c1)
    show ?thesis
    proof (cases ok)
      case True
      with step x Inr show ?thesis by (simp add: onSuccess_def consecutive_failures_def)
    next
      case False
      with snoc.prems step x Inr have closed1: "state c1 = CLOSED"
        by (auto simp: onFailure_def Let_def split: if_splits)
      with Inr have c1: "c1 = ?c" and "state ?c = CLOSED"
        by (auto simp: gate_def split: if_splits)
      with snoc.IH have "failures ?c = consecutive_failures h" by simp
      with False step x Inr c1 show ?thesis
        by (simp add: onFailure_def Let_def consecutive_failures_def)
    qed
  qed
qed

lemma execute_effect:
  "CircuitBreaker_execute rt ctx next (this0, s) =
     (case getCircuit this0 (courierCode ctx) of (c, this) \<Rightarrow>
      (case gate this (courierCode ctx) (Date_now rt s) c of
         Inl err \<Rightarrow> (Inl err, this, s)
       | Inr c1 \<Rightarrow>
           (fst (next s),
            store this (courierCode ctx)
              (call_step this (courierCode ctx) c (Date_now rt s, \<not> isl (fst (next s)), Date_now rt (snd (next s)))),
            snd (next s))))"
  by (auto simp: CircuitBreaker_execute_def split: prod.splits sum.splits)

lemma reachable_config:
  "c \<in> reachable a \<Longrightarrow> failureThreshold a = failureThreshold b \<Longrightarrow>
     resetTimeoutMs a = resetTimeoutMs b \<Longrightarrow> c \<in> reachable b"
proof (induction rule: reachable.induct)
  case r_init
  show ?case by (rule reachable.r_init)
next
  case (r_gate c code now c')
  have "gate b code now c = gate a code now c" using r_gate.prems by (simp add: gate_def)
  with r_gate show ?case by (auto intro: reachable.r_gate)
next
  case (r_success c)
  then show ?case by (auto intro: reachable.r_success)
next
  case (r_failure c now)
  have "onFailure a now c = onFailure b now c" using r_failure.prems by (simp add: onFailure_def)
  with r_failure show ?case by (auto intro: reachable.r_failure)
qed

lemma getCircuit_reachable:
  "\<forall>c \<in> ran (circuits this0). c \<in> reachable this0 \<Longrightarrow> getCircuit this0 code = (c, this) \<Longrightarrow>
     c \<in> reachable this0 \<and> failureThreshold this = failureThreshold this0 \<and> resetTimeoutMs this = resetTimeoutMs this0
     \<and> circuits this = (circuits this0)(code \<mapsto> c)"
  by (auto simp: getCircuit_def ran_def r_init split: option.splits)

lemma execute_preserves_reachable:
  assumes inv: "\<forall>c \<in> ran (circuits this0). c \<in> reachable this0"
    and run: "CircuitBreaker_execute rt ctx next (this0, s) = (r, this', s')"
  shows "\<forall>c \<in> ran (circuits this'). c \<in> reachable this'"
proof -
  obtain c this where g: "getCircuit this0 (courierCode ctx) = (c, this)" by (cases "getCircuit this0 (courierCode ctx)")
  from getCircuit_reachable[OF inv g] have c: "c \<in> reachable this0"
    and cfg: "failureThreshold this = failureThreshold this0" "resetTimeoutMs this = resetTimeoutMs this0"
    and m: "circuits this = (circuits this0)(courierCode ctx \<mapsto> c)" by auto
  have all: "\<forall>c \<in> ran (circuits this). c \<in> reachable this0"
    using inv c m by (auto simp: ran_def split: if_splits)
  have c': "call_step this (courierCode ctx) c x \<in> reachable this0" for x
    using call_step_reachable[of c this "courierCode ctx" x] c cfg
    by (metis reachable_config)
  have cases: "this' = this \<or> (\<exists>x. this' = store this (courierCode ctx) (call_step this (courierCode ctx) c x))"
    using run g unfolding execute_effect by (auto simp del: call_step.simps split: sum.splits)
  then have cfg': "failureThreshold this' = failureThreshold this0" "resetTimeoutMs this' = resetTimeoutMs this0"
    using cfg by (auto simp: store_def)
  have "\<forall>c \<in> ran (circuits this'). c \<in> reachable this0"
  proof
    fix d assume "d \<in> ran (circuits this')"
    then obtain k where k: "circuits this' k = Some d" by (auto simp: ran_def)
    from cases show "d \<in> reachable this0"
    proof
      assume "this' = this"
      with k all show ?thesis by (auto simp: ran_def)
    next
      assume "\<exists>x. this' = store this (courierCode ctx) (call_step this (courierCode ctx) c x)"
      then obtain x where x: "this' = store this (courierCode ctx) (call_step this (courierCode ctx) c x)" ..
      show ?thesis
      proof (cases "k = courierCode ctx")
        case True
        with k x have "d = call_step this (courierCode ctx) c x" by (simp add: store_def del: call_step.simps)
        with c' show ?thesis by simp
      next
        case False
        with k x have "circuits this k = Some d" by (simp add: store_def del: call_step.simps)
        with all show ?thesis by (auto simp: ran_def)
      qed
    qed
  qed
  then show ?thesis using cfg' by (metis reachable_config)
qed

lemma execute_counted_cases:
  assumes g: "getCircuit this0 (courierCode ctx) = (c, this)"
    and run: "CircuitBreaker_execute (counted rt) ctx (counting next) (this0, (n, s)) = (r, this', (m, s'))"
  shows "(case gate this (courierCode ctx) (Date_now rt s) c of
            Inl err \<Rightarrow> r = Inl err \<and> this' = this \<and> m = n \<and> s' = s
          | Inr c1 \<Rightarrow>
              (r, s') = next s \<and> m = Suc n \<and>
              circuits this' (courierCode ctx) =
                Some (if isl r then onFailure this (Date_now rt s') c1 else onSuccess c1))"
  using run g
  by (auto simp: CircuitBreaker_execute_def counting_def counted_def store_def split: sum.splits prod.splits)

text \<open>
  C2 as stated fails when calls on a key overlap. With \<open>failureThreshold = 2\<close> and
  \<open>resetTimeoutMs = 60000\<close>: calls 1, 2 and 3 enter while the record is CLOSED; 1 and 2
  fail and the record is OPEN; past the timeout call 4 enters as the probe and the record
  is HALF_OPEN; call 3 then succeeds, which closes the circuit while the probe is in
  flight; the probe fails, and the record is CLOSED with one failure, not OPEN.
\<close>

theorem overlapping_probe_counterexample:
  "record_after [Enters 1 0, Enters 2 0, Enters 3 0, NextRejects 1 5, NextRejects 2 6]
     = Some \<lparr>state = OPEN, failures = 2, lastFailureTime = 6\<rparr> \<and>
   record_after [Enters 1 0, Enters 2 0, Enters 3 0, NextRejects 1 5, NextRejects 2 6, Enters 4 60006]
     = Some \<lparr>state = HALF_OPEN, failures = 2, lastFailureTime = 6\<rparr> \<and>
   bc_awaiting (breaker_run ''test'' (breaker_with initial_circuit)
      [Enters 1 0, Enters 2 0, Enters 3 0, NextRejects 1 5, NextRejects 2 6, Enters (4::nat) 60006]) = [3, 4] \<and>
   record_after [Enters 1 0, Enters 2 0, Enters 3 0, NextRejects 1 5, NextRejects 2 6, Enters 4 60006,
                 NextFulfils 3]
     = Some \<lparr>state = CLOSED, failures = 0, lastFailureTime = 6\<rparr> \<and>
   record_after [Enters 1 0, Enters 2 0, Enters 3 0, NextRejects 1 5, NextRejects 2 6, Enters 4 60006,
                 NextFulfils 3, NextRejects 4 60010]
     = Some \<lparr>state = CLOSED, failures = 1, lastFailureTime = 60010\<rparr>"
  by (simp add: record_after_def breaker_run_def breaker_with_def new_CircuitBreakerMiddleware_def
      getCircuit_def gate_def store_def onSuccess_def onFailure_def initial_circuit_def)

text \<open>
  C2, as amended: the per-key record follows the state machine under \<open>execute\<close> for calls
  on the key that do not overlap, each run from its gate to the end of its branch before
  the next enters. For such a call on the record \<open>c\<close> of the key (\<open>m - n\<close> counts the
  invocations of \<open>next()\<close>, \<open>r\<close> is the outcome, \<open>this'\<close> the instance afterwards):
  \<^item> from CLOSED, after a history \<open>h\<close> of calls, the record is OPEN afterwards exactly when
    the call failed and the consecutive failures since the last success, this one
    included, have reached \<open>failureThreshold\<close>;
  \<^item> while OPEN and \<open>now - lastFailureTime < resetTimeoutMs\<close> the call throws a
    \<open>TrackingError\<close>, with the message that the breaker is open for the key, \<open>next()\<close> is
    not invoked and nothing changes;
  \<^item> once \<open>now - lastFailureTime \<ge> resetTimeoutMs\<close> the gate moves the record to
    HALF_OPEN and \<open>next()\<close> is invoked once; a successful probe leaves CLOSED with
    \<open>failures = 0\<close>; a failed probe of a reachable record leaves OPEN with
    \<open>lastFailureTime\<close> updated to the clock at the failure.
\<close>

theorem circuit_breaker_state_machine:
  assumes g: "getCircuit this0 (courierCode ctx) = (c, this)"
    and run: "CircuitBreaker_execute (counted rt) ctx (counting next) (this0, (n, s)) = (r, this', (m, s'))"
  shows
    "(c = after_calls this (courierCode ctx) h \<and> state c = CLOSED \<longrightarrow>
        m = Suc n \<and> (\<exists>c'. circuits this' (courierCode ctx) = Some c' \<and>
          (state c' = OPEN \<longleftrightarrow> isl r \<and> failureThreshold this \<le> consecutive_failures h + 1))) \<and>
     (state c = OPEN \<and> Date_now rt s - lastFailureTime c < resetTimeoutMs this \<longrightarrow>
        r = Inl (TrackingError (''Circuit breaker is open for provider \"'' @ courierCode ctx
                          @ ''\". Requests are blocked.'')) \<and>
        m = n \<and> s' = s \<and> this' = this) \<and>
     (state c = OPEN \<and> Date_now rt s - lastFailureTime c \<ge> resetTimeoutMs this \<longrightarrow>
        gate this (courierCode ctx) (Date_now rt s) c = Inr (c\<lparr>state := HALF_OPEN\<rparr>) \<and>
        m = Suc n \<and> (r, s') = next s \<and>
        (\<not> isl r \<longrightarrow> circuits this' (courierCode ctx) = Some (c\<lparr>state := CLOSED, failures := 0\<rparr>)) \<and>
        (isl r \<and> c \<in> reachable this \<longrightarrow>
           circuits this' (courierCode ctx) =
             Some \<lparr>state = OPEN, failures = failures c + 1, lastFailureTime = Date_now rt s'\<rparr>))"
proof -
  note cs = execute_counted_cases[OF g run]
  have closed: "m = Suc n \<and> (\<exists>c'. circuits this' (courierCode ctx) = Some c' \<and>
          (state c' = OPEN \<longleftrightarrow> isl r \<and> failureThreshold this \<le> consecutive_failures h + 1))"
    if "c = after_calls this (courierCode ctx) h" "state c = CLOSED"
  proof -
    from that closed_failures_count[of this "courierCode ctx" h]
    have f: "failures c = consecutive_failures h" by simp
    from that have "gate this (courierCode ctx) (Date_now rt s) c = Inr c" by (simp add: gate_def)
    with cs that(2) f show ?thesis by (auto simp: onFailure_def onSuccess_def Let_def)
  qed
  have blocked: "r = Inl (TrackingError (''Circuit breaker is open for provider \"'' @ courierCode ctx
                          @ ''\". Requests are blocked.'')) \<and>
        m = n \<and> s' = s \<and> this' = this"
    if "state c = OPEN" "Date_now rt s - lastFailureTime c < resetTimeoutMs this"
  proof -
    from that have "gate this (courierCode ctx) (Date_now rt s) c = Inl (breaker_open_error (courierCode ctx))"
      by (simp add: gate_def)
    with cs show ?thesis by (simp add: breaker_open_error_def)
  qed
  have probe: "gate this (courierCode ctx) (Date_now rt s) c = Inr (c\<lparr>state := HALF_OPEN\<rparr>) \<and>
        m = Suc n \<and> (r, s') = next s \<and>
        (\<not> isl r \<longrightarrow> circuits this' (courierCode ctx) = Some (c\<lparr>state := CLOSED, failures := 0\<rparr>)) \<and>
        (isl r \<and> c \<in> reachable this \<longrightarrow>
           circuits this' (courierCode ctx) =
             Some \<lparr>state = OPEN, failures = failures c + 1, lastFailureTime = Date_now rt s'\<rparr>)"
    if "state c = OPEN" "Date_now rt s - lastFailureTime c \<ge> resetTimeoutMs this"
  proof -
    from that have gt: "gate this (courierCode ctx) (Date_now rt s) c = Inr (c\<lparr>state := HALF_OPEN\<rparr>)"
      by (simp add: gate_def)
    have thr: "failureThreshold this \<le> failures c" if "c \<in> reachable this"
      using reachable_threshold[OF that] \<open>state c = OPEN\<close> by simp
    from cs gt thr show ?thesis by (auto simp: onFailure_def onSuccess_def Let_def)
  qed
  from closed blocked probe show ?thesis by blast
qed

lemmas test_defs = clock_runtime_def test_ctx_def breaker_with_def failing_def
  new_CircuitBreakerMiddleware_def getCircuit_def CircuitBreaker_execute_def counted_def counting_def
  gate_def onFailure_def onSuccess_def store_def initial_circuit_def after_calls_def
  consecutive_failures_def breaker_open_error_def

theorem circuit_breaker_state_machine_witness:
  "circuits (fst (snd (CircuitBreaker_execute (counted clock_runtime) test_ctx (counting failing)
       (breaker_with \<lparr>state = CLOSED, failures = 1, lastFailureTime = 5\<rparr>, (0, 10))))) ''test''
     = Some \<lparr>state = OPEN, failures = 2, lastFailureTime = 11\<rparr> \<and>
   CircuitBreaker_execute (counted clock_runtime) test_ctx (counting failing)
       (breaker_with \<lparr>state = OPEN, failures = 2, lastFailureTime = 11\<rparr>, (0, 60010))
     = (Inl (TrackingError ''Circuit breaker is open for provider \"test\". Requests are blocked.''),
        breaker_with \<lparr>state = OPEN, failures = 2, lastFailureTime = 11\<rparr>, (0, 60010)) \<and>
   CircuitBreaker_execute (counted clock_runtime) test_ctx (counting failing)
       (breaker_with \<lparr>state = OPEN, failures = 2, lastFailureTime = 11\<rparr>, (0, 60011))
     = (Inl (PlainError ''fail''), breaker_with \<lparr>state = OPEN, failures = 3, lastFailureTime = 60012\<rparr>, (1, 60012))"
proof -
  let ?c1 = "\<lparr>state = CLOSED, failures = 1, lastFailureTime = 5\<rparr>"
  let ?c2 = "\<lparr>state = OPEN, failures = 2, lastFailureTime = 11\<rparr>"
  let ?c3 = "\<lparr>state = OPEN, failures = 3, lastFailureTime = 60012\<rparr>"
  let ?h1 = "[(0, False, 5)] :: (int \<times> bool \<times> int) list"
  let ?h2 = "[(0, False, 5), (10, False, 11)] :: (int \<times> bool \<times> int) list"
  have g1: "getCircuit (breaker_with ?c1) (courierCode test_ctx) = (?c1, breaker_with ?c1)"
    by (simp add: test_defs)
  have g2: "getCircuit (breaker_with ?c2) (courierCode test_ctx) = (?c2, breaker_with ?c2)"
    by (simp add: test_defs)
  have run1: "CircuitBreaker_execute (counted clock_runtime) test_ctx (counting failing) (breaker_with ?c1, (0, 10))
      = (Inl (PlainError ''fail''), breaker_with ?c2, (1, 11))"
    by (simp add: test_defs)
  have run2: "CircuitBreaker_execute (counted clock_runtime) test_ctx (counting failing) (breaker_with ?c2, (0, 60010))
      = (Inl (TrackingError ''Circuit breaker is open for provider \"test\". Requests are blocked.''),
         breaker_with ?c2, (0, 60010))"
    by (simp add: test_defs)
  have run3: "CircuitBreaker_execute (counted clock_runtime) test_ctx (counting failing) (breaker_with ?c2, (0, 60011))
      = (Inl (PlainError ''fail''), breaker_with ?c3, (1, 60012))"
    by (simp add: test_defs)
  have h1: "?c1 = after_calls (breaker_with ?c1) (courierCode test_ctx) ?h1" "state ?c1 = CLOSED"
    by (simp_all add: test_defs)
  have h2: "state ?c2 = OPEN" "Date_now clock_runtime 60010 - lastFailureTime ?c2 < resetTimeoutMs (breaker_with ?c2)"
    by (simp_all add: test_defs)
  have "?c2 = after_calls (breaker_with ?c2) (courierCode test_ctx) ?h2"
    by (simp add: test_defs)
  then have h3: "state ?c2 = OPEN" "Date_now clock_runtime 60011 - lastFailureTime ?c2 \<ge> resetTimeoutMs (breaker_with ?c2)"
      "?c2 \<in> reachable (breaker_with ?c2)"
    using after_calls_reachable[of "breaker_with ?c2" "courierCode test_ctx" ?h2]
    by (simp_all add: clock_runtime_def breaker_with_def new_CircuitBreakerMiddleware_def)
  from circuit_breaker_state_machine[OF g1 run1, of ?h1] h1
  have w1: "circuits (breaker_with ?c2) (courierCode test_ctx) = Some ?c2" by (simp add: test_defs)
  from circuit_breaker_state_machine[OF g2 run2, of ?h2] h2
  have w2: "(Inl (TrackingError (''Circuit breaker is open for provider \"'' @ courierCode test_ctx
                          @ ''\". Requests are blocked.'')) :: unit settled)
      = Inl (TrackingError ''Circuit breaker is open for provider \"test\". Requests are blocked.'')"
    by (simp add: test_defs)
  from circuit_breaker_state_machine[OF g2 run3, of ?h2] h3
  have w3: "circuits (breaker_with ?c3) (courierCode test_ctx) = Some ?c3"
    by (simp add: test_defs)
  from w1 w2 w3 run1 run2 run3 show ?thesis by (simp add: test_ctx_def)
qed

text \<open>
  C10. Every reachable record that is OPEN or HALF_OPEN has \<open>failures \<ge> failureThreshold\<close>.
  The success branch sets \<open>failures\<close> to 0 together with \<open>state\<close> to CLOSED; the failure
  branch adds one and the gate leaves the counter alone, so nothing else resets it.
\<close>

theorem circuit_invariant:
  "c \<in> reachable this \<Longrightarrow>
     (state c = OPEN \<or> state c = HALF_OPEN \<longrightarrow> failureThreshold this \<le> failures c) \<and>
     (failures (onSuccess c) = 0 \<and> state (onSuccess c) = CLOSED) \<and>
     (\<forall>now. failures (onFailure this now c) = failures c + 1) \<and>
     (\<forall>code now c'. gate this code now c = Inr c' \<longrightarrow> failures c' = failures c)"
  using reachable_threshold[of c this]
  by (auto simp: onSuccess_def onFailure_def gate_def Let_def split: if_splits)

theorem circuit_invariant_witness:
  "after_calls (breaker_with initial_circuit) ''test'' [(0, False, 5), (10, False, 11)]
     = \<lparr>state = OPEN, failures = 2, lastFailureTime = 11\<rparr> \<and>
   failureThreshold (breaker_with initial_circuit)
     \<le> failures (after_calls (breaker_with initial_circuit) ''test'' [(0, False, 5), (10, False, 11)])"
proof -
  let ?h = "[(0, False, 5), (10, False, 11)] :: (int \<times> bool \<times> int) list"
  let ?c = "after_calls (breaker_with initial_circuit) ''test'' ?h"
  have c: "?c = \<lparr>state = OPEN, failures = 2, lastFailureTime = 11\<rparr>"
    by (simp add: test_defs)
  have "?c \<in> reachable (breaker_with initial_circuit)"
    by (rule after_calls_reachable)
  from circuit_invariant[OF this] c show ?thesis by simp
qed

section \<open>Proofs: retry\<close>


lemma invocations_append [simp]: "invocations (xs @ ys) = invocations xs + invocations ys"
  by (induction xs rule: invocations.induct) auto

lemma invocations_retry_trace [simp]: "invocations (retry_trace b i rs) = length rs"
  by (induction b i rs rule: retry_trace.induct) auto

lemma retry_trace_Cons:
  "retry_trace b i (r # rs) = Invoked r # (if rs = [] then [] else Slept (b * 2 ^ i) # retry_trace b (Suc i) rs)"
  by (cases rs) auto




lemma retry_trace_Nil [simp]: "retry_trace b i rs = [] \<longleftrightarrow> rs = []"
  by (cases rs) (auto simp: retry_trace_Cons)










section \<open>Proofs: cache\<close>

lemma get_counted [simp]:
  "MemoryCacheAdapter_get (counted rt) key (entries, (n, s)) = MemoryCacheAdapter_get rt key (entries, s)"
  by (simp add: MemoryCacheAdapter_get_def split: option.splits)

lemma set_counted [simp]:
  "MemoryCacheAdapter_set (counted rt) key v ttl (entries, (n, s)) = MemoryCacheAdapter_set rt key v ttl (entries, s)"
  by (simp add: MemoryCacheAdapter_set_def)

lemma get_miss_subset:
  "MemoryCacheAdapter_get rt key (entries, s) = (None, cache1) \<Longrightarrow>
     cache1 = entries(key := None) \<and> (\<forall>k. k \<noteq> key \<longrightarrow> cache1 k = entries k)"
  by (auto simp: MemoryCacheAdapter_get_def split: option.splits if_splits)

text \<open>
  C7 as stated fails for two executions that overlap. On an empty cache with the default
  TTL, two executions for the same context both read the cache before either has
  written it: both miss, \<open>next()\<close> is invoked twice, and each returns what its own
  invocation fulfilled with, here two different values, 5 and 6 ms after the start.
\<close>

theorem overlapping_executions_counterexample:
  "cc_invoked (cache_run test_ctx (new_CacheMiddleware None)
      [Gets (1::nat) 0, Gets 2 0, Resumes 1, Resumes 2,
       NextSettles 1 (Inr ''in transit'') 5, NextSettles 2 (Inr ''delivered'') 6]) = 2 \<and>
   cc_returned (cache_run test_ctx (new_CacheMiddleware None)
      [Gets (1::nat) 0, Gets 2 0, Resumes 1, Resumes 2,
       NextSettles 1 (Inr ''in transit'') 5, NextSettles 2 (Inr ''delivered'') 6])
     = [(1, Inr ''in transit''), (2, Inr ''delivered'')]"
  by (simp add: cache_run_def new_CacheMiddleware_def MemoryCacheAdapter_get_def MemoryCacheAdapter_set_def
      getCacheKey_def test_ctx_def clock_runtime_def)

text \<open>
  C7, as amended: two executions for the same \<open>{courierCode, trackingNumber}\<close>, the second
  started after the first is over, the first on a cache with no live entry for the key.
  If the first's downstream call fulfils with \<open>v\<close> and the second runs while its clock
  is at most \<open>ttlMs\<close> past the write, both return \<open>v\<close> and downstream has been invoked
  exactly once (the second does not touch the world). If the first's downstream call
  rejects, the rejection is returned and the cache holds nothing for the key; whenever
  the cache holds an entry for the key afterwards, the downstream call fulfilled with
  the value returned. A \<open>get\<close> past \<open>expiresAt\<close> returns absent and deletes the entry.
\<close>

theorem cache_idempotence:
  assumes miss: "fst (MemoryCacheAdapter_get rt (getCacheKey ctx) (adapter this, s)) = None"
    and first: "Cache_execute (counted rt) ctx (counting next) (this, (0, s)) = (r1, this1, (n1, s1))"
    and second: "Cache_execute (counted rt) ctx' (counting next') (this1, (n1, s2)) = (r2, this2, (n2, s2'))"
    and same: "courierCode ctx' = courierCode ctx" "trackingNumber ctx' = trackingNumber ctx"
  shows "(\<forall>v. next s = (Inr v, s1) \<and> Date_now rt s2 \<le> Date_now rt s1 + ttlMs this \<longrightarrow>
            r1 = Inr v \<and> r2 = Inr v \<and> n1 = 1 \<and> n2 = 1 \<and> s2' = s2) \<and>
         (isl (fst (next s)) \<longrightarrow>
            r1 = fst (next s) \<and> adapter this1 = (adapter this)(getCacheKey ctx := None)) \<and>
         (adapter this1 (getCacheKey ctx) \<noteq> None \<longrightarrow> (\<exists>v. r1 = Inr v \<and> fst (next s) = Inr v)) \<and>
         (\<forall>key e. adapter this key = Some e \<and> Date_now rt s > expiresAt e \<longrightarrow>
            MemoryCacheAdapter_get rt key (adapter this, s) = (None, (adapter this)(key := None)))"
proof -
  let ?key = "getCacheKey ctx"
  have key': "getCacheKey ctx' = ?key" using same by (simp add: getCacheKey_def)
  obtain cache1 where g: "MemoryCacheAdapter_get rt ?key (adapter this, s) = (None, cache1)"
    using miss by (cases "MemoryCacheAdapter_get rt ?key (adapter this, s)") auto
  from get_miss_subset[OF g] have c1: "cache1 = (adapter this)(?key := None)" by simp
  obtain o1 t1 where nx: "next s = (o1, t1)" by (cases "next s")
  have run1: "r1 = o1 \<and> n1 = 1 \<and> s1 = t1 \<and>
      adapter this1 = (case o1 of Inl e \<Rightarrow> cache1
                       | Inr v \<Rightarrow> cache1(?key \<mapsto> \<lparr>entry_value = v, expiresAt = Date_now rt t1 + ttlMs this\<rparr>)) \<and>
      ttlMs this1 = ttlMs this"
    using first g nx
    by (auto simp: Cache_execute_def MemoryCacheAdapter_set_def split: sum.splits)
  have hit: "r1 = Inr v \<and> r2 = Inr v \<and> n1 = 1 \<and> n2 = 1 \<and> s2' = s2"
    if "next s = (Inr v, s1)" "Date_now rt s2 \<le> Date_now rt s1 + ttlMs this" for v
  proof -
    from that nx run1 have "adapter this1 ?key = Some \<lparr>entry_value = v, expiresAt = Date_now rt s1 + ttlMs this\<rparr>"
      and "r1 = Inr v" "n1 = 1" by auto
    with that(2) second key' show ?thesis
      by (auto simp: Cache_execute_def MemoryCacheAdapter_get_def)
  qed
  have fail: "r1 = fst (next s) \<and> adapter this1 = (adapter this)(?key := None)" if "isl (fst (next s))"
    using that nx run1 c1 by (auto split: sum.splits)
  have written: "\<exists>v. r1 = Inr v \<and> fst (next s) = Inr v" if "adapter this1 ?key \<noteq> None"
    using that nx run1 c1 by (auto split: sum.splits)
  have evict: "MemoryCacheAdapter_get rt key (adapter this, s) = (None, (adapter this)(key := None))"
    if "adapter this key = Some e" "Date_now rt s > expiresAt e" for key e
    using that by (simp add: MemoryCacheAdapter_get_def)
  from hit fail written evict show ?thesis by blast
qed

theorem cache_idempotence_witness:
  "Cache_execute (counted clock_runtime) test_ctx (counting (succeeding ''delivered''))
       (new_CacheMiddleware None, (0, 0))
     = (Inr ''delivered'',
        \<lparr>adapter = [''test:123'' \<mapsto> \<lparr>entry_value = ''delivered'', expiresAt = 300001\<rparr>], ttlMs = 300000\<rparr>,
        (1, 1)) \<and>
   Cache_execute (counted clock_runtime) test_ctx (counting rejecting)
       (\<lparr>adapter = [''test:123'' \<mapsto> \<lparr>entry_value = ''delivered'', expiresAt = 300001\<rparr>], ttlMs = 300000\<rparr>,
        (1, 300001))
     = (Inr ''delivered'',
        \<lparr>adapter = [''test:123'' \<mapsto> \<lparr>entry_value = ''delivered'', expiresAt = 300001\<rparr>], ttlMs = 300000\<rparr>,
        (1, 300001)) \<and>
   Cache_execute (counted clock_runtime) test_ctx (counting rejecting)
       (new_CacheMiddleware None :: string CacheMiddleware, (0, 0))
     = (Inl (PlainError ''fail''), new_CacheMiddleware None, (1, 1)) \<and>
   MemoryCacheAdapter_get clock_runtime ''test:123''
       ([''test:123'' \<mapsto> \<lparr>entry_value = ''delivered'', expiresAt = 300001\<rparr>], 300002)
     = (None, Map.empty)"
proof -
  let ?mw = "new_CacheMiddleware None :: string CacheMiddleware"
  let ?mwa = "\<lparr>adapter = [''test:123'' \<mapsto> \<lparr>entry_value = ''delivered'', expiresAt = 300001\<rparr>], ttlMs = 300000\<rparr>"
  note defs = Cache_execute_def MemoryCacheAdapter_get_def MemoryCacheAdapter_set_def getCacheKey_def
    new_CacheMiddleware_def clock_runtime_def test_ctx_def succeeding_def rejecting_def
  have miss: "fst (MemoryCacheAdapter_get clock_runtime (getCacheKey test_ctx) (adapter ?mw, 0)) = None"
    by (simp add: defs)
  have first: "Cache_execute (counted clock_runtime) test_ctx (counting (succeeding ''delivered'')) (?mw, (0, 0))
      = (Inr ''delivered'', ?mwa, (1, 1))"
    by (simp add: defs)
  have second: "Cache_execute (counted clock_runtime) test_ctx (counting rejecting) (?mwa, (1, 300001))
      = (Inr ''delivered'', ?mwa, (1, 300001))"
    by (simp add: defs)
  have first': "Cache_execute (counted clock_runtime) test_ctx (counting rejecting) (?mw, (0, 0))
      = (Inl (PlainError ''fail''), ?mw, (1, 1))"
    by (simp add: defs)
  have second': "Cache_execute (counted clock_runtime) test_ctx (counting rejecting) (?mw, (1, 1))
      = (Inl (PlainError ''fail''), ?mw, (2, 2))"
    by (simp add: defs)
  have ok: "succeeding ''delivered'' 0 = (Inr ''delivered'', 1)"
      "Date_now clock_runtime 300001 \<le> Date_now clock_runtime 1 + ttlMs ?mw"
    by (simp_all add: defs)
  have bad: "isl (fst ((rejecting :: (int, string) NextFunction) 0))" by (simp add: defs)
  have old: "adapter ?mwa ''test:123'' = Some \<lparr>entry_value = ''delivered'', expiresAt = 300001\<rparr>"
      "Date_now clock_runtime 300002 > expiresAt \<lparr>entry_value = ''delivered'', expiresAt = 300001\<rparr>"
    by (simp_all add: defs)
  from cache_idempotence[OF miss first second refl refl] ok
  have w1: "(Inr ''delivered'' :: string settled) = Inr ''delivered'' \<and> (1::nat) = 1" by simp
  from cache_idempotence[OF miss first' second' refl refl] bad
  have w2: "adapter ?mw = (adapter ?mw)(getCacheKey test_ctx := None)" by blast
  have miss3: "fst (MemoryCacheAdapter_get clock_runtime (getCacheKey test_ctx) (adapter ?mwa, 300002)) = None"
    by (simp add: defs)
  have first3: "Cache_execute (counted clock_runtime) test_ctx (counting rejecting) (?mwa, (0, 300002))
      = (Inl (PlainError ''fail''), ?mwa\<lparr>adapter := Map.empty\<rparr>, (1, 300003))"
    by (simp add: defs)
  have second3: "Cache_execute (counted clock_runtime) test_ctx (counting rejecting)
        (?mwa\<lparr>adapter := Map.empty\<rparr>, (1, 300003))
      = (Inl (PlainError ''fail''), ?mwa\<lparr>adapter := Map.empty\<rparr>, (2, 300004))"
    by (simp add: defs)
  from cache_idempotence[OF miss3 first3 second3 refl refl] old
  have w3: "MemoryCacheAdapter_get clock_runtime ''test:123'' (adapter ?mwa, 300002)
      = (None, (adapter ?mwa)(''test:123'' := None))"
    by blast
  from first second first' w3 show ?thesis by simp
qed

section \<open>Proofs: createTracker\<close>

text \<open>
  C9. When the \<open>middlewares\<close> config is omitted, or leaves \<open>rateLimiter\<close>, \<open>retry\<close> and
  \<open>circuitBreaker\<close> undefined or \<open>true\<close> (and does not enable \<open>cache\<close> or \<open>logger\<close>), the
  list built is exactly the rate limiter, the retry and the circuit breaker, in this
  order, each built from \<open>{}\<close>. For any config the classes of the list are, in this
  order: the rate limiter, the retry and the circuit breaker, each unless set to
  \<open>false\<close>; then the cache and the logger, each only when set to \<open>true\<close> or to an options
  object.
\<close>

theorem createTracker_middleware_order:
  "(createTracker_middleware rt None :: ('w, 'a) Middleware list) = default_middleware \<and>
   (rateLimiter c \<in> {Unset, Flag True} \<and> retry c \<in> {Unset, Flag True} \<and>
    circuitBreaker c \<in> {Unset, Flag True} \<and> cache c \<in> {Unset, Flag False} \<and>
    logger c \<in> {Unset, Flag False} \<longrightarrow>
      (createTracker_middleware rt (Some c) :: ('w, 'a) Middleware list) = default_middleware) \<and>
   map class_name (createTracker_middleware rt (Some c) :: ('w, 'a) Middleware list) =
     (if rateLimiter c = Flag False then [] else [''RateLimiterMiddleware'']) @
     (if retry c = Flag False then [] else [''RetryMiddleware'']) @
     (if circuitBreaker c = Flag False then [] else [''CircuitBreakerMiddleware'']) @
     (if cache c = Flag True \<or> (\<exists>config. cache c = Options config) then [''CacheMiddleware''] else []) @
     (if logger c = Flag True \<or> (\<exists>config. logger c = Options config) then [''LoggerMiddleware''] else [])"
proof -
  have a: "(createTracker_middleware rt None :: ('w, 'a) Middleware list) = default_middleware"
    by (simp add: createTracker_middleware_def mwConfig_of_def default_middleware_def)
  have b: "(createTracker_middleware rt (Some c) :: ('w, 'a) Middleware list) = default_middleware"
    if "rateLimiter c \<in> {Unset, Flag True} \<and> retry c \<in> {Unset, Flag True} \<and>
        circuitBreaker c \<in> {Unset, Flag True} \<and> cache c \<in> {Unset, Flag False} \<and>
        logger c \<in> {Unset, Flag False}"
    using that
    by (auto simp: createTracker_middleware_def mwConfig_of_def default_middleware_def)
  have rl: "map class_name (case rateLimiter c of
         Flag False \<Rightarrow> []
       | Options config \<Rightarrow> [RateLimiter (new_RateLimiterMiddleware (Some config)) :: ('w, 'a) Middleware]
       | _ \<Rightarrow> [RateLimiter (new_RateLimiterMiddleware (Some \<lparr>limits = None\<rparr>))])
     = (if rateLimiter c = Flag False then [] else [''RateLimiterMiddleware''])"
    by (auto split: toggle.splits bool.splits)
  have re: "map class_name (case retry c of
         Flag False \<Rightarrow> []
       | Options config \<Rightarrow> [Retry (new_RetryMiddleware (Some config)) :: ('w, 'a) Middleware]
       | _ \<Rightarrow> [Retry (new_RetryMiddleware (Some \<lparr>opt_maxAttempts = None, opt_baseDelayMs = None\<rparr>))])
     = (if retry c = Flag False then [] else [''RetryMiddleware''])"
    by (auto split: toggle.splits bool.splits)
  have cb: "map class_name (case circuitBreaker c of
         Flag False \<Rightarrow> []
       | Options config \<Rightarrow> [CircuitBreaker (new_CircuitBreakerMiddleware (Some config)) :: ('w, 'a) Middleware]
       | _ \<Rightarrow> [CircuitBreaker (new_CircuitBreakerMiddleware
                  (Some \<lparr>opt_failureThreshold = None, opt_resetTimeoutMs = None\<rparr>))])
     = (if circuitBreaker c = Flag False then [] else [''CircuitBreakerMiddleware''])"
    by (auto split: toggle.splits bool.splits)
  have ca: "map class_name (case cache c of
         Flag True \<Rightarrow> [Cache (new_CacheMiddleware (Some \<lparr>opt_ttlMs = None\<rparr>)) :: ('w, 'a) Middleware]
       | Options config \<Rightarrow> [Cache (new_CacheMiddleware (Some config))]
       | _ \<Rightarrow> [])
     = (if cache c = Flag True \<or> (\<exists>config. cache c = Options config) then [''CacheMiddleware''] else [])"
    by (auto split: toggle.splits bool.splits)
  have lo: "map class_name (case logger c of
         Flag True \<Rightarrow> [Logger (new_LoggerMiddleware rt (Some \<lparr>opt_log = None\<rparr>)) :: ('w, 'a) Middleware]
       | Options config \<Rightarrow> [Logger (new_LoggerMiddleware rt (Some config))]
       | _ \<Rightarrow> [])
     = (if logger c = Flag True \<or> (\<exists>config. logger c = Options config) then [''LoggerMiddleware''] else [])"
    by (auto split: toggle.splits bool.splits)
  have c: "map class_name (createTracker_middleware rt (Some c) :: ('w, 'a) Middleware list) =
     (if rateLimiter c = Flag False then [] else [''RateLimiterMiddleware'']) @
     (if retry c = Flag False then [] else [''RetryMiddleware'']) @
     (if circuitBreaker c = Flag False then [] else [''CircuitBreakerMiddleware'']) @
     (if cache c = Flag True \<or> (\<exists>config. cache c = Options config) then [''CacheMiddleware''] else []) @
     (if logger c = Flag True \<or> (\<exists>config. logger c = Options config) then [''LoggerMiddleware''] else [])"
    unfolding createTracker_middleware_def mwConfig_of_def Let_def option.case map_append
    using rl re cb ca lo by simp
  from a b c show ?thesis by blast
qed

theorem createTracker_middleware_order_witness:
  "(createTracker_middleware clock_runtime
      (Some \<lparr>cache = Flag False, retry = Flag True, rateLimiter = Unset, circuitBreaker = Flag True,
             logger = Unset\<rparr>) :: (int, unit) Middleware list) = default_middleware \<and>
   map class_name (createTracker_middleware clock_runtime
      (Some \<lparr>cache = Flag True, retry = Flag False, rateLimiter = Unset, circuitBreaker = Flag True,
             logger = Options \<lparr>opt_log = None\<rparr>\<rparr>) :: (int, unit) Middleware list)
     = [''RateLimiterMiddleware'', ''CircuitBreakerMiddleware'', ''CacheMiddleware'', ''LoggerMiddleware'']"
proof -
  let ?c1 = "\<lparr>cache = Flag False, retry = Flag True, rateLimiter = Unset, circuitBreaker = Flag True,
             logger = Unset :: int LoggerOptions toggle\<rparr>"
  let ?c2 = "\<lparr>cache = Flag True, retry = Flag False, rateLimiter = Unset, circuitBreaker = Flag True,
             logger = Options \<lparr>opt_log = None :: (string \<Rightarrow> int \<Rightarrow> int) option\<rparr>\<rparr>"
  have h: "rateLimiter ?c1 \<in> {Unset, Flag True} \<and> retry ?c1 \<in> {Unset, Flag True} \<and>
    circuitBreaker ?c1 \<in> {Unset, Flag True} \<and> cache ?c1 \<in> {Unset, Flag False} \<and>
    logger ?c1 \<in> {Unset, Flag False}" by simp
  from createTracker_middleware_order[of clock_runtime ?c1, where 'a = unit] h
  have w1: "(createTracker_middleware clock_runtime (Some ?c1) :: (int, unit) Middleware list) = default_middleware"
    by blast
  from createTracker_middleware_order[of clock_runtime ?c2, where 'a = unit]
  have w2: "map class_name (createTracker_middleware clock_runtime (Some ?c2) :: (int, unit) Middleware list)
     = [''RateLimiterMiddleware'', ''CircuitBreakerMiddleware'', ''CacheMiddleware'', ''LoggerMiddleware'']"
    by simp
  from w1 w2 show ?thesis by simp
qed

section \<open>Proofs: the middleware chain\<close>

lemma advances_refl: "\<not> exhausted st \<Longrightarrow> advances st st"
  by (simp add: advances_def)

lemma advances_trans: "advances a b \<Longrightarrow> advances b c \<Longrightarrow> advances a c"
  by (auto simp: advances_def)

lemma advances_ready: "ready d a \<Longrightarrow> advances a b \<Longrightarrow> ready d b"
  by (auto simp: advances_def ready_def)

lemma advances_world: "advances a b \<Longrightarrow> advances a (b\<lparr>world := w\<rparr>)"
  by (simp add: advances_def)

lemma advances_instances:
  "advances a b \<Longrightarrow> advances a (b\<lparr>middlewares := (middlewares b)[i := m]\<rparr>)"
  by (simp add: advances_def)

lemma goodD: "good d nx \<Longrightarrow> ready d st \<Longrightarrow> advances st (snd (nx st))"
  by (simp add: good_def)

lemma retry_loop_invariant:
  "(\<And>s. I s \<Longrightarrow> I (snd (next s))) \<Longrightarrow> (\<And>d s. I s \<Longrightarrow> I (sleep rt d s)) \<Longrightarrow> I s \<Longrightarrow>
     I (snd (retry_loop rt this next i e s))"
proof (induction rt this "next" i e s rule: retry_loop.induct)
  case (1 rt this "next" attempt lastError s)
  show ?case
  proof (cases "int attempt < maxAttempts this")
    case False
    with 1 show ?thesis by (simp add: retry_loop.simps[of rt this "next" attempt])
  next
    case True
    obtain o1 s1 where nx: "next s = (o1, s1)" by (cases "next s")
    have I1: "I s1" using "1.prems"(3) "1.prems"(1)[of s] nx by simp
    show ?thesis
    proof (cases o1)
      case (Inr v)
      with True nx I1 show ?thesis by (simp add: retry_loop.simps[of rt this "next" attempt])
    next
      case (Inl err)
      show ?thesis
      proof (cases "\<not> isRetryable err \<or> int attempt = maxAttempts this - 1")
        case True
        with \<open>int attempt < maxAttempts this\<close> nx Inl I1 show ?thesis
          by (auto simp: retry_loop.simps[of rt this "next" attempt])
      next
        case False
        have "I (sleep rt (baseDelayMs this * 2 ^ attempt) s1)"
          using I1 "1.prems"(2) by simp
        from "1.IH"[OF True nx[symmetric] Inl False "1.prems"(1) "1.prems"(2) this]
        show ?thesis using True nx Inl False
          by (simp add: retry_loop.simps[of rt this "next" attempt])
      qed
    qed
  qed
qed

lemma sleep_chain [simp]: "sleep (chain_runtime rt) d st = st\<lparr>world := sleep rt d (world st)\<rparr>"
  by (simp add: chain_runtime_def)

lemma Date_now_chain [simp]: "Date_now (chain_runtime rt) st = Date_now rt (world st)"
  by (simp add: chain_runtime_def)

lemma good_Middleware_execute:
  assumes g: "good d nx"
  shows "good d (Middleware_execute rt ctx mw i nx)"
  unfolding good_def
proof (intro allI impI)
  fix st :: "('a, 'b) chain_state"
  assume r: "ready d st"
  then have self: "advances st st" by (simp add: ready_def advances_refl)
  have call: "advances st (snd (nx st'))" if "advances st st'" for st'
    using goodD[OF g advances_ready[OF r that]] that by (rule advances_trans[rotated])
  show "advances st (snd (Middleware_execute rt ctx mw i nx st))"
  proof (cases mw)
    case (RateLimiter this)
    then show ?thesis using call[OF self]
      by (auto simp: Middleware_execute_def RateLimiter_execute_def advances_instances
          split: prod.splits)
  next
    case (Retry this)
    let ?I = "\<lambda>st'. advances st st'"
    have "?I (snd (retry_loop (chain_runtime rt) this nx 0 Undefined st))"
      by (rule retry_loop_invariant[where I = ?I]) (auto intro: call self advances_world)
    with Retry show ?thesis by (simp add: Middleware_execute_def Retry_execute_def)
  next
    case (CircuitBreaker this)
    then show ?thesis using call[OF self] self
      by (auto simp: Middleware_execute_def CircuitBreaker_execute_def advances_instances
          split: prod.splits sum.splits)
  next
    case (Cache this)
    then show ?thesis using call[OF self] self
      by (auto simp: Middleware_execute_def Cache_execute_def Let_def advances_instances
          split: prod.splits sum.splits option.splits)
  next
    case (Logger this)
    let ?s1 = "st\<lparr>world := log this (log_prefix ctx @ '' - start'') (world st)\<rparr>"
    obtain o1 s2 where nx: "nx ?s1 = (o1, s2)" by (cases "nx ?s1")
    have "advances st (snd (nx ?s1))"
      by (rule call) (rule advances_world[OF self])
    with nx have "advances st s2" by simp
    with Logger nx show ?thesis
      by (auto simp: Middleware_execute_def Logger_execute_def Let_def advances_world
          split: sum.splits option.splits)
  qed
qed

lemma good_chain_next: "good d (chain_next d rt ctx execute)"
proof (induction d)
  case 0
  show ?case
    by (auto simp: good_def ready_def advances_def terminal_call_def split: prod.splits)
next
  case (Suc d)
  show ?case unfolding good_def
  proof (intro allI impI)
    fix st :: "('a, 'b) chain_state"
    assume r: "ready (Suc d) st"
    show "advances st (snd (chain_next (Suc d) rt ctx execute st))"
    proof (cases "index st \<ge> length (middlewares st)")
      case True
      with r show ?thesis
        by (auto simp: ready_def advances_def terminal_call_def split: prod.splits)
    next
      case False
      let ?st1 = "st\<lparr>index := index st + 1\<rparr>"
      have r1: "ready d ?st1" using r by (simp add: ready_def)
      have "advances ?st1 (snd (Middleware_execute rt ctx (middlewares st ! index st) (index st)
              (chain_next d rt ctx execute) ?st1))"
        using good_Middleware_execute[OF Suc] r1 by (simp add: good_def)
      then have "advances st (snd (Middleware_execute rt ctx (middlewares st ! index st) (index st)
              (chain_next d rt ctx execute) ?st1))"
        by (simp add: advances_def)
      with False show ?thesis by (simp add: Let_def)
    qed
  qed
qed

text \<open>
  \<open>executeMiddlewareChain\<close> always has a result: every nested \<open>next()\<close> finds the index
  one further, so the bound of the model is never reached.
\<close>

lemma executeMiddlewareChain_returns:
  "\<exists>r mws' w'. executeMiddlewareChain rt mws ctx execute w = Some (r, mws', w') \<and> length mws' = length mws"
proof (cases "length mws = 0")
  case True
  then show ?thesis by (auto simp: executeMiddlewareChain_def split: prod.splits)
next
  case False
  let ?st0 = "\<lparr>index = 0, middlewares = mws, exhausted = False, world = w\<rparr>"
  have "ready (length mws) ?st0" by (simp add: ready_def)
  from goodD[OF good_chain_next this]
  have "advances ?st0 (snd (chain_next (length mws) rt ctx execute ?st0))" .
  with False show ?thesis
    by (auto simp: executeMiddlewareChain_def advances_def split: prod.splits)
qed

lemma show_int_0 [simp]: "show_int 0 = ''0''"
  by (simp add: show_int_def show_nat.simps)

lemmas chain_defs = executeMiddlewareChain_def Middleware_execute_def chain_runtime_def terminal_call_def
  Retry_execute_def Logger_execute_def log_prefix_def new_LoggerMiddleware_def new_RetryMiddleware_def
  tagged_logger_def test_runtime_def scripted_def test_ctx_def http500_def

text \<open>With no middleware the terminal call is invoked directly.\<close>

lemma chain_empty:
  "executeMiddlewareChain rt [] ctx execute w = Some (fst (execute w), [], snd (execute w))"
  by (simp add: executeMiddlewareChain_def split: prod.splits)

lemma index_free_refl [simp]: "index_free a a"
  by (simp add: index_free_def)

lemma index_free_index [simp]: "index_free a (a\<lparr>index := j\<rparr>)" "index_free (a\<lparr>index := j\<rparr>) a"
  by (simp_all add: index_free_def)

lemma single_shot:
  assumes nr: "\<not> is_Retry mw"
    and rel: "index_free st st'"
    and nx: "\<And>w. fst (nx (st\<lparr>world := w\<rparr>)) = fst (nx' (st'\<lparr>world := w\<rparr>)) \<and>
                 index_free (snd (nx (st\<lparr>world := w\<rparr>))) (snd (nx' (st'\<lparr>world := w\<rparr>)))"
  shows "fst (Middleware_execute rt ctx mw i nx st) = fst (Middleware_execute rt ctx mw i nx' st') \<and>
         index_free (snd (Middleware_execute rt ctx mw i nx st)) (snd (Middleware_execute rt ctx mw i nx' st'))"
proof -
  have w: "world st' = world st" using rel by (simp add: index_free_def)
  have same: "st\<lparr>world := world st\<rparr> = st" "st'\<lparr>world := world st\<rparr> = st'"
    using w by simp_all
  from nx[of "world st"] have nx0: "fst (nx st) = fst (nx' st')"
    "index_free (snd (nx st)) (snd (nx' st'))"
    by (simp_all add: same)
  show ?thesis
  proof (cases mw)
    case (RateLimiter this)
    with nx0 show ?thesis
      by (auto simp: Middleware_execute_def RateLimiter_execute_def index_free_def split: prod.splits)
  next
    case (Retry this)
    with nr show ?thesis by simp
  next
    case (CircuitBreaker this)
    with nx0 rel show ?thesis
      by (auto simp: Middleware_execute_def CircuitBreaker_execute_def index_free_def
          split: prod.splits sum.splits)
  next
    case (Cache this)
    with nx0 rel show ?thesis
      by (auto simp: Middleware_execute_def Cache_execute_def MemoryCacheAdapter_get_def
          MemoryCacheAdapter_set_def Let_def index_free_def
          split: prod.splits sum.splits option.splits)
  next
    case (Logger this)
    let ?w1 = "log this (log_prefix ctx @ '' - start'') (world st)"
    from nx[of ?w1] w Logger rel show ?thesis
      by (auto simp: Middleware_execute_def Logger_execute_def Let_def index_free_def
          split: prod.splits sum.splits option.splits)
  qed
qed

lemma terminal_index_free:
  "index_free st st' \<Longrightarrow>
     fst (terminal_call execute st) = fst (terminal_call execute st') \<and>
     index_free (snd (terminal_call execute st)) (snd (terminal_call execute st'))"
  by (auto simp: terminal_call_def index_free_def split: prod.splits)

lemma chain_next_onion_next:
  assumes "\<forall>mw \<in> set (middlewares st). \<not> is_Retry mw"
    and "index st + k = length (middlewares st)" and "k \<le> d" and "index_free st st'"
  shows "fst (chain_next d rt ctx execute st) = fst (onion_next k rt ctx execute st') \<and>
         index_free (snd (chain_next d rt ctx execute st)) (snd (onion_next k rt ctx execute st'))"
  using assms
proof (induction k arbitrary: d st st')
  case 0
  then have "index st \<ge> length (middlewares st)" by simp
  then have "chain_next d rt ctx execute st = terminal_call execute st" by (cases d) simp_all
  with terminal_index_free[OF "0.prems"(4)] show ?case by simp
next
  case (Suc k)
  from Suc.prems obtain d' where d: "d = Suc d'" "k \<le> d'" by (cases d) auto
  let ?i = "index st"
  let ?st1 = "st\<lparr>index := ?i + 1\<rparr>"
  have lt: "?i < length (middlewares st)" using Suc.prems by simp
  have m': "middlewares st' = middlewares st" using Suc.prems(4) by (simp add: index_free_def)
  have i': "length (middlewares st') - Suc k = ?i" using Suc.prems(2) m' by simp
  have nr: "\<not> is_Retry (middlewares st ! ?i)" using Suc.prems(1) lt by simp
  have rel1: "index_free ?st1 st'" using Suc.prems(4) by (simp add: index_free_def)
  have nx: "fst (chain_next d' rt ctx execute (?st1\<lparr>world := w\<rparr>)) =
              fst (onion_next k rt ctx execute (st'\<lparr>world := w\<rparr>)) \<and>
            index_free (snd (chain_next d' rt ctx execute (?st1\<lparr>world := w\<rparr>)))
              (snd (onion_next k rt ctx execute (st'\<lparr>world := w\<rparr>)))" for w
  proof (rule Suc.IH)
    show "\<forall>mw \<in> set (middlewares (?st1\<lparr>world := w\<rparr>)). \<not> is_Retry mw" using Suc.prems(1) by simp
    show "index (?st1\<lparr>world := w\<rparr>) + k = length (middlewares (?st1\<lparr>world := w\<rparr>))"
      using Suc.prems(2) by simp
    show "k \<le> d'" by (rule d)
    show "index_free (?st1\<lparr>world := w\<rparr>) (st'\<lparr>world := w\<rparr>)"
      using Suc.prems(4) by (simp add: index_free_def)
  qed
  have c: "chain_next d rt ctx execute st =
      Middleware_execute rt ctx (middlewares st ! ?i) ?i (chain_next d' rt ctx execute) ?st1"
    using d lt by (simp add: Let_def)
  have o: "onion_next (Suc k) rt ctx execute st' =
      Middleware_execute rt ctx (middlewares st ! ?i) ?i (onion_next k rt ctx execute) st'"
    using i' m' by (simp add: Let_def)
  have "fst (Middleware_execute rt ctx (middlewares st ! ?i) ?i (chain_next d' rt ctx execute) ?st1) =
          fst (Middleware_execute rt ctx (middlewares st ! ?i) ?i (onion_next k rt ctx execute) st') \<and>
        index_free (snd (Middleware_execute rt ctx (middlewares st ! ?i) ?i (chain_next d' rt ctx execute) ?st1))
          (snd (Middleware_execute rt ctx (middlewares st ! ?i) ?i (onion_next k rt ctx execute) st'))"
    using nr rel1 nx
    by (rule single_shot[where nx = "chain_next d' rt ctx execute" and nx' = "onion_next k rt ctx execute"])
  then show ?case unfolding c o .
qed

text \<open>
  The chain is the onion whenever no middleware of the list is the retry middleware, the
  only one that invokes \<open>next()\<close> more than once: each middleware's one \<open>next()\<close> runs
  the rest of the list and then the terminal call. In particular for \<open>[A, B]\<close> the order
  is A before, B before, the terminal call, B after, A after.
\<close>

theorem chain_is_onion_without_retry:
  assumes "\<forall>mw \<in> set mws. \<not> is_Retry mw"
  shows "executeMiddlewareChain rt mws ctx execute w = Some (onion rt mws ctx execute w)"
proof (cases "length mws = 0")
  case True
  then show ?thesis
    by (simp add: executeMiddlewareChain_def onion_def terminal_call_def split: prod.splits)
next
  case False
  let ?st0 = "\<lparr>index = 0, middlewares = mws, exhausted = False, world = w\<rparr>"
  obtain r st where c: "chain_next (length mws) rt ctx execute ?st0 = (r, st)"
    by (cases "chain_next (length mws) rt ctx execute ?st0")
  obtain r' st' where o: "onion_next (length mws) rt ctx execute ?st0 = (r', st')"
    by (cases "onion_next (length mws) rt ctx execute ?st0")
  from chain_next_onion_next[of ?st0 "length mws" "length mws" ?st0 rt ctx execute] assms c o
  have eq: "r = r'" "index_free st st'" by simp_all
  from executeMiddlewareChain_returns[of rt mws ctx execute w] c False
  have "\<not> exhausted st" by (auto simp: executeMiddlewareChain_def split: if_splits)
  with eq c o False show ?thesis
    by (simp add: executeMiddlewareChain_def onion_def index_free_def)
qed

text \<open>
  C1 at a list whose first middleware invokes \<open>next()\<close> more than once: the retry
  middleware before a logger, with a terminal call that rejects with HTTP 500 twice and
  then fulfils. The first \<open>next()\<close> runs the logger and the terminal call and leaves
  \<open>index\<close> at 2; the second and the third find \<open>index >= length\<close> and run the terminal
  call alone, so the logger sees one attempt of three. In the onion every \<open>next()\<close> of
  the retry middleware runs the logger and then the terminal call.
\<close>

theorem retry_bypasses_inner_middleware:
  "map_option (\<lambda>(r, mws, w). (r, console w))
     (executeMiddlewareChain test_runtime [Retry (new_RetryMiddleware None), tagged_logger ''B''] test_ctx scripted
        \<lparr>clock = 0, console = [], script = [Inl http500, Inl http500, Inr ''delivered'']\<rparr>)
   = Some (Inr ''delivered'',
       [''B[tracking] test:123 - start'', ''terminal'',
        ''B[tracking] test:123 - error (0ms): Request failed with status code 500'',
        ''terminal'', ''terminal'']) \<and>
   (case onion test_runtime [Retry (new_RetryMiddleware None), tagged_logger ''B''] test_ctx scripted
        \<lparr>clock = 0, console = [], script = [Inl http500, Inl http500, Inr ''delivered'']\<rparr>
    of (r, mws, w) \<Rightarrow> (r, console w))
   = (Inr ''delivered'',
       [''B[tracking] test:123 - start'', ''terminal'',
        ''B[tracking] test:123 - error (0ms): Request failed with status code 500'',
        ''B[tracking] test:123 - start'', ''terminal'',
        ''B[tracking] test:123 - error (0ms): Request failed with status code 500'',
        ''B[tracking] test:123 - start'', ''terminal'',
        ''B[tracking] test:123 - success (0ms)''])"
  by (simp add: chain_defs onion_def numeral_2_eq_2 retry_loop.simps)

text \<open>
  The list \<open>createTracker\<close> builds by default, with a terminal call that always rejects
  with HTTP 500: of the three failed attempts the circuit breaker records one.
\<close>

lemma default_chain_breaker_sees_one_failure:
  "map_option (\<lambda>(r, mws, w). (r, console w, map (\<lambda>mw. case mw of CircuitBreaker b \<Rightarrow> circuits b ''test'' | _ \<Rightarrow> None) mws))
     (executeMiddlewareChain test_runtime default_middleware test_ctx scripted
        \<lparr>clock = 0, console = [], script = [Inl http500, Inl http500, Inl http500 :: string settled]\<rparr>)
   = Some (Inl http500, [''terminal'', ''terminal'', ''terminal''],
           [None, None, Some \<lparr>state = CLOSED, failures = 1, lastFailureTime = 0\<rparr>])"
  by (simp add: chain_defs default_middleware_def numeral_3_eq_3 retry_loop.simps
      RateLimiter_execute_def getLimiter_def new_RateLimiterMiddleware_def DEFAULT_LIMITS_def
      CircuitBreaker_execute_def getCircuit_def gate_def onFailure_def store_def initial_circuit_def
      new_CircuitBreakerMiddleware_def Let_def)

section \<open>Proofs: track and trackBatch\<close>

lemma track_returns:
  "\<exists>r this' w'. ShipmentTracker_track rt n c (this, w) = Some (r, this', w')"
proof -
  have chain: "\<exists>r mws' w'. executeMiddlewareChain rt mws ctx execute w1 = Some (r, mws', w')"
    for mws ctx w1 execute
    using executeMiddlewareChain_returns[of rt mws ctx execute w1] by blast
  show ?thesis
  proof (cases "case c of Some c \<Rightarrow> Inr c | None \<Rightarrow> detectCourier this n")
    case (Inl err)
    then show ?thesis by (simp add: ShipmentTracker_track_def)
  next
    case (Inr code)
    show ?thesis
    proof (cases "map_of (providers this) code")
      case None
      with Inr show ?thesis by (simp add: ShipmentTracker_track_def)
    next
      case (Some provider)
      let ?ctx = "\<lparr>trackingNumber = n, courierCode = code\<rparr>"
      from chain[of "tracker_middlewares this" ?ctx "track_of provider n" "emit this (TrackStart n code) w"]
      obtain r mws' w' where
        "executeMiddlewareChain rt (tracker_middlewares this) ?ctx (track_of provider n)
           (emit this (TrackStart n code) w) = Some (r, mws', w')" by blast
      with Inr Some show ?thesis
        by (cases r) (simp_all add: ShipmentTracker_track_def Let_def)
    qed
  qed
qed

text \<open>Scheduling: lengths are kept, a call that has settled stays settled, and every call can be run to its end.\<close>

lemma advance_length [simp]: "length (fst (advance st i)) = length (fst st)"
  by (cases st) (auto split: task.splits)



declare advance.simps [simp del]

lemma run_schedule_length [simp]: "length (fst (run_schedule sch st)) = length (fst st)"
  unfolding run_schedule_def by (induction sch arbitrary: st) auto

lemma launch_length [simp]: "length (fst (launch ts w)) = length ts"
  using run_schedule_length[of "[0..<length ts]" "(ts, w)"] by (simp add: launch_def run_schedule_def)







lemma batch_entry_number [simp]: "batch_trackingNumber (batch_entry item r) = item_trackingNumber item"
  by (cases r) (simp_all add: batch_entry_def)


text \<open>
  The calls of a batch overlap: each of three calls adds one to a counter in its first
  stretch, and the two that fulfil report 3, the counter after all three have started.
  The call that rejects with \<open>undefined\<close> has an \<open>Error\<close> in its entry. While a call is
  pending there is no result yet.
\<close>

lemma trackBatch_calls_overlap:
  "trackBatch counting_call [0, 1, 2]
     [\<lparr>item_trackingNumber = ''A'', item_courierCode = Some ''mock''\<rparr>,
      \<lparr>item_trackingNumber = ''B'', item_courierCode = None\<rparr>,
      \<lparr>item_trackingNumber = ''C'', item_courierCode = Some ''mock''\<rparr>] 0
   = Some ([\<lparr>batch_trackingNumber = ''A'', result = Some 3, error = None\<rparr>,
            \<lparr>batch_trackingNumber = ''B'', result = None, error = Some (PlainError ''undefined'')\<rparr>,
            \<lparr>batch_trackingNumber = ''C'', result = Some 3, error = None\<rparr>], 3) \<and>
   trackBatch counting_call [0, 1]
     [\<lparr>item_trackingNumber = ''A'', item_courierCode = Some ''mock''\<rparr>,
      \<lparr>item_trackingNumber = ''B'', item_courierCode = None\<rparr>,
      \<lparr>item_trackingNumber = ''C'', item_courierCode = Some ''mock''\<rparr>] 0
   = None"
  by (simp add: trackBatch_def allSettled_def launch_def run_schedule_def track_calls_def
      counting_call_def advance.simps batch_entry_def)


section \<open>Proofs: providers\<close>

lemma Date_now_recorded [simp]: "Date_now (recorded rt) (tr, s) = Date_now rt s"
  by (simp add: recorded_def)

lemma recording_simps [simp]:
  "tokenCache (recording p) = tokenCache p"
  "requestToken (recording p) (tr, s) = (fst (requestToken p s), (tr @ [TokenRequested], snd (requestToken p s)))"
  "fetchTrackingData (recording p) n tok (tr, s) =
     (fst (fetchTrackingData p n tok s), (tr @ [DataCall tok], snd (fetchTrackingData p n tok s)))"
  "checkForError (recording p) = checkForError p"
  "parseResponse (recording p) = parseResponse p"
  "provider_code (recording p) = provider_code p"
  "provider_name (recording p) = provider_name p"
  "validateCreds (recording p) = validateCreds p"
  by (simp_all add: recording_def validateCreds_def split: prod.splits)





text \<open>
  Whatever \<open>track\<close> rejects with, it is not an \<open>AxiosError\<close>: the \<open>catch\<close> block has
  replaced it. With \<open>track\<close> as the terminal call, no rejection is retryable.
\<close>

lemma track_catch_not_retryable: "\<not> isRetryable (track_catch name n e)"
  by (cases e) (simp_all add: wrapped_def split: option.splits)

lemma track_rejections_not_retryable:
  "fst (BaseProvider_track rt n (p, s)) = Inl e \<Longrightarrow> \<not> isRetryable e"
  by (auto simp: BaseProvider_track_def validateCreds_def track_catch_not_retryable
      split: option.splits prod.splits sum.splits if_splits)

section \<open>Proofs: overlapping getToken calls\<close>

lemma join_calls:
  assumes "lc_tokenPromise a = Some fl" "\<forall>x \<in> set calls. \<not> cache_valid a (snd x)"
  shows "token_run a (map (\<lambda>(c, t). GetToken c t) calls) =
           a\<lparr>lc_tokenPromise := Some (fl\<lparr>joiners := joiners fl @ map fst calls\<rparr>)\<rparr>"
  using assms
proof (induction calls arbitrary: a fl)
  case Nil
  then show ?case by (simp add: token_run_def)
next
  case (Cons x calls)
  obtain c t where x: "x = (c, t)" by (cases x)
  let ?a1 = "a\<lparr>lc_tokenPromise := Some (fl\<lparr>joiners := joiners fl @ [c]\<rparr>)\<rparr>"
  have s1: "token_step a (GetToken c t) = ?a1"
    using Cons.prems x by (auto simp: cache_valid_def split: option.splits)
  have "\<forall>x \<in> set calls. \<not> cache_valid ?a1 (snd x)"
    using Cons.prems by (simp add: cache_valid_def)
  from Cons.IH[of ?a1 "fl\<lparr>joiners := joiners fl @ [c]\<rparr>", OF _ this]
  show ?case using s1 x by (simp add: token_run_def)
qed

text \<open>
  C4. On an instance with no refresh in flight, let any number of callers (at least one)
  enter \<open>getToken\<close> while no valid token is cached, and let the token request then be
  answered. Exactly one token request has been issued; every caller's \<open>getToken\<close>
  settles as the refresh did, all with the same token or all with the same failure;
  \<open>tokenPromise\<close> is cleared either way, and a later \<open>getToken\<close> that finds no valid
  token starts a refresh of its own, with a second request.
\<close>

theorem single_flight:
  assumes idle: "lc_tokenPromise a = None"
    and stale: "\<forall>x \<in> set ((c, t) # calls). \<not> cache_valid a (snd x)"
  shows "(let a1 = token_run a (map (\<lambda>(c, t). GetToken c t) ((c, t) # calls));
              a2 = token_step a1 (Settled response now)
          in lc_requests a1 = lc_requests a + 1 \<and>
             lc_delivered a1 = lc_delivered a \<and>
             lc_requests a2 = lc_requests a + 1 \<and>
             lc_delivered a2 =
               lc_delivered a @ map (\<lambda>(c, t). (c, refresh_outcome response)) ((c, t) # calls) \<and>
             lc_tokenPromise a2 = None \<and>
             (\<forall>c' t'. \<not> cache_valid a2 t' \<longrightarrow>
                lc_requests (token_step a2 (GetToken c' t')) = lc_requests a + 2 \<and>
                lc_tokenPromise (token_step a2 (GetToken c' t')) = Some \<lparr>owner = c', joiners = []\<rparr>))"
proof -
  let ?a0 = "a\<lparr>lc_tokenPromise := Some \<lparr>owner = c, joiners = []\<rparr>, lc_requests := lc_requests a + 1\<rparr>"
  have s0: "token_step a (GetToken c t) = ?a0"
    using idle stale by (auto simp: cache_valid_def split: option.splits)
  have "\<forall>x \<in> set calls. \<not> cache_valid ?a0 (snd x)"
    using stale by (simp add: cache_valid_def)
  from join_calls[of ?a0 "\<lparr>owner = c, joiners = []\<rparr>" calls, OF _ this]
  have a1: "token_run a (map (\<lambda>(c, t). GetToken c t) ((c, t) # calls)) =
      ?a0\<lparr>lc_tokenPromise := Some \<lparr>owner = c, joiners = map fst calls\<rparr>\<rparr>"
    using s0 by (simp add: token_run_def)
  have m: "map (\<lambda>c. (c, r)) (map fst calls) = map (\<lambda>(c, t). (c, r)) calls" for r :: "string settled"
    by (induction calls) auto
  show ?thesis
    unfolding a1 Let_def
    by (cases response) (auto simp: m cache_valid_def split: option.splits)
qed

text \<open>
  The \<open>getToken\<close> of calls that do not overlap is one caller's flight: it returns what
  that caller is delivered and leaves the cache the flight leaves.
\<close>

lemma getToken_is_one_flight:
  assumes a: "a = \<lparr>lc_tokenCache = tokenCache p, lc_tokenPromise = None, lc_requests = 0, lc_delivered = []\<rparr>"
    and rq: "requestToken p s = (response, s')"
  shows "getToken rt (p, s) =
           (if cache_valid a (Date_now rt s)
            then (snd (hd (lc_delivered (token_step a (GetToken c (Date_now rt s))))), p, s)
            else (let a2 = token_run a [GetToken c (Date_now rt s), Settled response (Date_now rt s')]
                  in (snd (hd (lc_delivered a2)), p\<lparr>tokenCache := lc_tokenCache a2\<rparr>, s')))"
  using a rq
  by (cases response)
     (auto simp: getToken_def refreshToken_def cache_valid_def token_run_def Let_def
           split: option.splits)

theorem single_flight_witness:
  "token_run fresh_lifecycle [GetToken 0 10, GetToken 1 11, GetToken 2 12, Settled (Inr (''tok'', 3600)) 20]
     = \<lparr>lc_tokenCache = Some \<lparr>token = ''tok'', token_expiresAt = 3540020\<rparr>, lc_tokenPromise = None,
        lc_requests = 1, lc_delivered = [(0, Inr ''tok''), (1, Inr ''tok''), (2, Inr ''tok'')]\<rparr> \<and>
   token_run fresh_lifecycle [GetToken 0 10, GetToken 1 11, GetToken 2 12, Settled (Inl http401) 20,
       GetToken 3 30]
     = \<lparr>lc_tokenCache = None, lc_tokenPromise = Some \<lparr>owner = 3, joiners = []\<rparr>,
        lc_requests = 2, lc_delivered = [(0, Inl http401), (1, Inl http401), (2, Inl http401)]\<rparr>"
proof -
  let ?calls = "[(1, 11), (2, 12)] :: (nat \<times> int) list"
  have idle: "lc_tokenPromise fresh_lifecycle = None" by (simp add: fresh_lifecycle_def)
  have stale: "\<forall>x \<in> set ((0, 10) # ?calls). \<not> cache_valid fresh_lifecycle (snd x)"
    by (simp add: fresh_lifecycle_def cache_valid_def)
  have none: "\<not> cache_valid (token_step (token_run fresh_lifecycle
        (map (\<lambda>(c, t). GetToken c t) ((0, 10) # ?calls))) (Settled (Inl http401) 20)) 30"
    by (simp add: fresh_lifecycle_def cache_valid_def token_run_def)
  from single_flight[OF idle stale, of "Inr (''tok'', 3600)" 20]
  have ok: "lc_requests (token_run fresh_lifecycle
        [GetToken 0 10, GetToken 1 11, GetToken 2 12, Settled (Inr (''tok'', 3600)) 20]) = 1"
    by (simp add: Let_def token_run_def fresh_lifecycle_def)
  from single_flight[OF idle stale, of "Inl http401" 20] none
  have again: "lc_requests (token_run fresh_lifecycle
        [GetToken 0 10, GetToken 1 11, GetToken 2 12, Settled (Inl http401) 20, GetToken 3 30]) = 2"
    by (simp add: Let_def token_run_def fresh_lifecycle_def)
  have v1: "token_run fresh_lifecycle [GetToken 0 10, GetToken 1 11, GetToken 2 12, Settled (Inr (''tok'', 3600)) 20]
     = \<lparr>lc_tokenCache = Some \<lparr>token = ''tok'', token_expiresAt = 3540020\<rparr>, lc_tokenPromise = None,
        lc_requests = 1, lc_delivered = [(0, Inr ''tok''), (1, Inr ''tok''), (2, Inr ''tok'')]\<rparr>"
    using ok by (simp add: token_run_def fresh_lifecycle_def TOKEN_BUFFER_MS_def)
  have v2: "token_run fresh_lifecycle [GetToken 0 10, GetToken 1 11, GetToken 2 12, Settled (Inl http401) 20,
       GetToken 3 30]
     = \<lparr>lc_tokenCache = None, lc_tokenPromise = Some \<lparr>owner = 3, joiners = []\<rparr>,
        lc_requests = 2, lc_delivered = [(0, Inl http401), (1, Inl http401), (2, Inl http401)]\<rparr>"
    using again by (simp add: token_run_def fresh_lifecycle_def)
  from v1 v2 show ?thesis by simp
qed

end
